theory Spec2Isabelle
  imports Main "HOL-Library.Word" "HOL-Library.AList"
begin

chapter \<open>The model of the relayer\<close>

section \<open>Machine types\<close>

text \<open>
  The relayer is written in Go. A \<open>byte\<close> is an 8-bit word, \<open>uint32\<close> and \<open>uint64\<close> are
  words that wrap around, a \<open>[]byte\<close> is a list of bytes and a Go \<open>string\<close> is a HOL string
  (a list of 8-bit characters). An \<open>error\<close> value is its message text; a function that
  returns \<open>(x, err)\<close> returns \<open>Inl err\<close> or \<open>Inr x\<close>. A run-time panic is a \<open>fault\<close>; a
  function that can panic returns \<open>Inl fault\<close> or \<open>Inr result\<close>.
\<close>

type_synonym byte = "8 word"
type_synonym uint8 = "8 word"
type_synonym uint16 = "16 word"
type_synonym uint32 = "32 word"
type_synonym uint64 = "64 word"
type_synonym error = string

datatype fault = NilPointerDereference | SliceBoundsOutOfRange | IndexOutOfRange | ExplicitPanic

definition bytes_of_string :: "string \<Rightarrow> byte list" where
  "bytes_of_string s = map (\<lambda>c. of_nat (of_char c)) s"

definition string_of_bytes :: "byte list \<Rightarrow> string" where
  "string_of_bytes bs = map (\<lambda>b. char_of (unat b)) bs"

text \<open>\<open>strings.HasPrefix\<close> and \<open>strings.Contains\<close> of the Go library.\<close>

fun HasPrefix :: "string \<Rightarrow> string \<Rightarrow> bool" where
  "HasPrefix s [] = True"
| "HasPrefix [] (c # pre) = False"
| "HasPrefix (x # s) (c # pre) = (x = c \<and> HasPrefix s pre)"

fun Contains :: "string \<Rightarrow> string \<Rightarrow> bool" where
  "Contains [] substr = (substr = [])"
| "Contains (x # s) substr = (HasPrefix (x # s) substr \<or> Contains s substr)"

text \<open>\<open>hex.EncodeToString\<close>: two lower-case hexadecimal digits per byte.\<close>

definition hexdigit :: "nat \<Rightarrow> char" where
  "hexdigit n = ''0123456789abcdef'' ! (n mod 16)"

definition EncodeToString :: "byte list \<Rightarrow> string" where
  "EncodeToString src = concat (map (\<lambda>b. [hexdigit (unat b div 16), hexdigit (unat b mod 16)]) src)"

text \<open>
  \<open>hex.DecodeString\<close> where it is asked whether a text decodes: two hexadecimal digits of
  either case per byte; a text of odd length or with another character is an error
  (\<open>None\<close>). \<open>LeftPadBytes\<close> is the function of the Ethereum library, and \<open>decimal\<close> is
  how \<open>fmt\<close> prints an unsigned integer under \<open>%d\<close>.
\<close>

definition fromHexChar :: "char \<Rightarrow> nat option" where
  "fromHexChar c =
     (let n = (of_char c :: nat)
      in if 48 \<le> n \<and> n \<le> 57 then Some (n - 48)
         else if 97 \<le> n \<and> n \<le> 102 then Some (n - 87)
         else if 65 \<le> n \<and> n \<le> 70 then Some (n - 55)
         else None)"

fun hexDecode :: "string \<Rightarrow> byte list option" where
  "hexDecode [] = Some []"
| "hexDecode [c] = None"
| "hexDecode (a # b # s) =
     (case fromHexChar a of
        None \<Rightarrow> None
      | Some x \<Rightarrow>
     (case fromHexChar b of
        None \<Rightarrow> None
      | Some y \<Rightarrow>
     (case hexDecode s of
        None \<Rightarrow> None
      | Some rest \<Rightarrow> Some (of_nat (16 * x + y) # rest))))"

definition LeftPadBytes :: "byte list \<Rightarrow> nat \<Rightarrow> byte list" where
  "LeftPadBytes bs l = (if l \<le> length bs then bs else replicate (l - length bs) 0 @ bs)"

function decimal :: "int \<Rightarrow> string" where
  "decimal n =
     (if n < 10 then [hexdigit (nat n)] else decimal (n div 10) @ [hexdigit (nat (n mod 10))])"
  by pat_completeness auto
termination
  by (relation "measure nat") auto

declare decimal.simps [simp del]

section \<open>The sink and the source of the binary format\<close>

text \<open>
  Modelled from the spec: \<open>common.ZeroCopySink\<close> and \<open>common.ZeroCopySource\<close> belong to the
  SC SDK, which is not among the sources. Section 6.1 of the spec gives the format: all
  integers little-endian, \<open>varbytes\<close> is a \<open>varuint\<close> length followed by the bytes, and a
  string is the \<open>varbytes\<close> of its bytes. A \<open>varuint\<close> is one byte below \<open>0xFD\<close>, and
  otherwise the marker \<open>0xFD\<close>, \<open>0xFE\<close> or \<open>0xFF\<close> followed by 2, 4 or 8 bytes.

  A sink is the list of bytes written so far: \<open>sink.WriteX(v)\<close> appends \<open>WriteX v\<close>. A
  source is the list of bytes not yet read: \<open>NextX\<close> returns the value, the \<open>eof\<close> flag and
  the rest of the source. When fewer bytes are left than asked for, \<open>eof\<close> is set and the
  source is exhausted.
\<close>

fun le_bytes :: "nat \<Rightarrow> nat \<Rightarrow> byte list" where
  "le_bytes 0 n = []"
| "le_bytes (Suc k) n = of_nat (n mod 256) # le_bytes k (n div 256)"

fun le_nat :: "byte list \<Rightarrow> nat" where
  "le_nat [] = 0"
| "le_nat (b # bs) = unat b + 256 * le_nat bs"

definition WriteUint8 :: "uint8 \<Rightarrow> byte list" where
  "WriteUint8 val = [val]"

definition WriteUint16 :: "uint16 \<Rightarrow> byte list" where
  "WriteUint16 val = le_bytes 2 (unat val)"

definition WriteUint32 :: "uint32 \<Rightarrow> byte list" where
  "WriteUint32 val = le_bytes 4 (unat val)"

definition WriteUint64 :: "uint64 \<Rightarrow> byte list" where
  "WriteUint64 val = le_bytes 8 (unat val)"

definition WriteVarUint :: "uint64 \<Rightarrow> byte list" where
  "WriteVarUint data =
     (if data < 0xFD then [ucast data]
      else if data \<le> 0xFFFF then 0xFD # WriteUint16 (ucast data)
      else if data \<le> 0xFFFFFFFF then 0xFE # WriteUint32 (ucast data)
      else 0xFF # WriteUint64 data)"

definition WriteVarBytes :: "byte list \<Rightarrow> byte list" where
  "WriteVarBytes data = WriteVarUint (of_nat (length data)) @ data"

definition WriteString :: "string \<Rightarrow> byte list" where
  "WriteString data = WriteVarBytes (bytes_of_string data)"

definition NextBytes :: "nat \<Rightarrow> byte list \<Rightarrow> byte list \<times> bool \<times> byte list" where
  "NextBytes n s = (if length s < n then (s, True, []) else (take n s, False, drop n s))"

definition NextUint8 :: "byte list \<Rightarrow> uint8 \<times> bool \<times> byte list" where
  "NextUint8 s = (case s of [] \<Rightarrow> (0, True, []) | b # rest \<Rightarrow> (b, False, rest))"

definition NextUint16 :: "byte list \<Rightarrow> uint16 \<times> bool \<times> byte list" where
  "NextUint16 s = (case NextBytes 2 s of (buf, eof, rest) \<Rightarrow>
     if eof then (0, True, rest) else (of_nat (le_nat buf), False, rest))"

definition NextUint32 :: "byte list \<Rightarrow> uint32 \<times> bool \<times> byte list" where
  "NextUint32 s = (case NextBytes 4 s of (buf, eof, rest) \<Rightarrow>
     if eof then (0, True, rest) else (of_nat (le_nat buf), False, rest))"

definition NextUint64 :: "byte list \<Rightarrow> uint64 \<times> bool \<times> byte list" where
  "NextUint64 s = (case NextBytes 8 s of (buf, eof, rest) \<Rightarrow>
     if eof then (0, True, rest) else (of_nat (le_nat buf), False, rest))"

definition NextVarUint :: "byte list \<Rightarrow> uint64 \<times> bool \<times> byte list" where
  "NextVarUint s = (case NextUint8 s of (fb, eof, rest) \<Rightarrow>
     if eof then (0, True, rest)
     else if fb = 0xFD then (case NextUint16 rest of (val, e, rest') \<Rightarrow> (ucast val, e, rest'))
     else if fb = 0xFE then (case NextUint32 rest of (val, e, rest') \<Rightarrow> (ucast val, e, rest'))
     else if fb = 0xFF then NextUint64 rest
     else (ucast fb, False, rest))"

definition NextVarBytes :: "byte list \<Rightarrow> byte list \<times> bool \<times> byte list" where
  "NextVarBytes s = (case NextVarUint s of (count, eof, rest) \<Rightarrow>
     if eof then ([], True, rest) else NextBytes (unat count) rest)"

definition NextString :: "byte list \<Rightarrow> string \<times> bool \<times> byte list" where
  "NextString s = (case NextVarBytes s of (val, eof, rest) \<Rightarrow> (string_of_bytes val, eof, rest))"

section \<open>The SC SDK's header and Merkle value\<close>

text \<open>
  \<open>polytypes.Header\<close> and \<open>common2.ToMerkleValue\<close> are types of the SC SDK. The relayer uses
  them through their methods and fields only, so the model leaves the two types open
  (\<open>'h\<close> and \<open>'p\<close>) and takes what the relayer uses as a record of functions.
  \<open>TxHash\<close> is the slice \<open>param.TxHash\<close>, the bytes up to its length; \<open>TxHash_spare\<close>
  are the bytes of its backing array between its length and its capacity, which a
  re-slice \<open>param.TxHash[:n]\<close> reaches.
  \<open>Deserialization\<close> fills the receiver from the source and may fail half-way: it gives
  the error (if any), the receiver as it was left and the source as it was left.
\<close>

record ('h, 'p) PolySDK =
  Header_Serialization :: "'h \<Rightarrow> byte list"
  Header_Deserialization :: "byte list \<Rightarrow> error option \<times> 'h \<times> byte list"
  ToMerkleValue_Serialization :: "'p \<Rightarrow> byte list"
  ToMerkleValue_Deserialization :: "byte list \<Rightarrow> error option \<times> 'p \<times> byte list"
  GetMessage :: "'h \<Rightarrow> byte list"
  SigData :: "'h \<Rightarrow> byte list list"
  ConsensusPayload :: "'h \<Rightarrow> byte list"
  NextBookkeeper :: "'h \<Rightarrow> byte list"
  TxHash :: "'p \<Rightarrow> byte list"
  TxHash_spare :: "'p \<Rightarrow> byte list"
  FromChainID :: "'p \<Rightarrow> uint64"

section \<open>BridgeTransaction (part\_000, lines 59--139)\<close>

definition FEE_NOCHECK :: uint8 where "FEE_NOCHECK = 0"
definition FEE_HASPAY :: uint8 where "FEE_HASPAY = 1"
definition FEE_NOTPAY :: uint8 where "FEE_NOTPAY = 2"

text \<open>A nil \<open>anchorHeader\<close> is \<open>None\<close>.\<close>

record ('h, 'p) BridgeTransaction =
  header :: 'h
  param :: 'p
  headerProof :: string
  anchorHeader :: "'h option"
  polyTxHash :: string
  rawAuditPath :: "byte list"
  hasPay :: uint8
  fee :: string

definition CheckGasLimit :: "string \<Rightarrow> uint64 \<Rightarrow> error option" where
  "CheckGasLimit hash limit =
     (if limit > 300000
      then Some (''Skipping poly tx '' @ hash @ '' for gas limit too high '' @
                 decimal (uint limit) @ '' '')
      else None)"

definition Serialization :: "('h, 'p) PolySDK \<Rightarrow> ('h, 'p) BridgeTransaction \<Rightarrow> byte list" where
  "Serialization sdk this =
     Header_Serialization sdk (header this) @
     ToMerkleValue_Serialization sdk (param this) @
     (case anchorHeader this of
        Some anchor \<Rightarrow>
          if headerProof this \<noteq> ''''
          then WriteUint8 1 @ WriteString (headerProof this) @ Header_Serialization sdk anchor
          else WriteUint8 0
      | None \<Rightarrow> WriteUint8 0) @
     WriteString (polyTxHash this) @
     WriteVarBytes (rawAuditPath this) @
     WriteUint8 (hasPay this) @
     WriteString (fee this)"

text \<open>
  \<open>Deserialization\<close> starts from a fresh \<open>BridgeTransaction\<close> (\<open>new(BridgeTransaction)\<close> at
  its only call), so \<open>headerProof\<close> is empty and \<open>anchorHeader\<close> nil unless the presence
  byte is 1. The error of the anchor header's own \<open>Deserialization\<close> is dropped by the
  code: reading goes on from wherever that call left the source.
\<close>

definition Deserialization ::
  "('h, 'p) PolySDK \<Rightarrow> byte list \<Rightarrow> error + ('h, 'p) BridgeTransaction" where
  "Deserialization sdk source =
     (case Header_Deserialization sdk source of
        (Some err, _) \<Rightarrow> Inl err
      | (None, hdr, source) \<Rightarrow>
     (case ToMerkleValue_Deserialization sdk source of
        (Some err, _) \<Rightarrow> Inl err
      | (None, prm, source) \<Rightarrow>
     (case NextUint8 source of (anchor, eof, source) \<Rightarrow>
      if eof then Inl ''Waiting deserialize anchor error'' else
     (case (if anchor = 1
            then (case NextString source of (hp, eof, source) \<Rightarrow>
                    if eof then Inl ''Waiting deserialize header proof error''
                    else (case Header_Deserialization sdk source of
                            (_, anchorHdr, source) \<Rightarrow> Inr (hp, Some anchorHdr, source)))
            else Inr ('''', None, source)) of
        Inl err \<Rightarrow> Inl err
      | Inr (hp, anchorHdr, source) \<Rightarrow>
     (case NextString source of (txHash, eof, source) \<Rightarrow>
      if eof then Inl ''Waiting deserialize poly tx hash error'' else
     (case NextVarBytes source of (auditPath, eof, source) \<Rightarrow>
      if eof then Inl ''Waiting deserialize poly tx hash error'' else
     (case NextUint8 source of (pay, eof, source) \<Rightarrow>
      if eof then Inl ''Waiting deserialize has pay error'' else
     (case NextString source of (fee', eof, source) \<Rightarrow>
      if eof then Inl ''Waiting deserialize fee error'' else
      Inr \<lparr>header = hdr, param = prm, headerProof = hp, anchorHeader = anchorHdr,
           polyTxHash = txHash, rawAuditPath = auditPath, hasPay = pay, fee = fee'\<rparr>))))))))"

section \<open>CrossTransfer (part\_001, lines 60--103)\<close>

record CrossTransfer =
  txIndex :: string
  txId :: "byte list"
  value' :: "byte list"
  toChain :: uint32
  height :: uint64

definition CrossTransfer_Serialization :: "CrossTransfer \<Rightarrow> byte list" where
  "CrossTransfer_Serialization this =
     WriteString (txIndex this) @
     WriteVarBytes (txId this) @
     WriteVarBytes (value' this) @
     WriteUint32 (toChain this) @
     WriteUint64 (height this)"

definition CrossTransfer_Deserialization :: "byte list \<Rightarrow> error + CrossTransfer" where
  "CrossTransfer_Deserialization source =
     (case NextString source of (txIndex', eof, source) \<Rightarrow>
      if eof then Inl ''Waiting deserialize txIndex error'' else
     (case NextVarBytes source of (txId', eof, source) \<Rightarrow>
      if eof then Inl ''Waiting deserialize txId error'' else
     (case NextVarBytes source of (val, eof, source) \<Rightarrow>
      if eof then Inl ''Waiting deserialize value error'' else
     (case NextUint32 source of (toChain', eof, source) \<Rightarrow>
      if eof then Inl ''Waiting deserialize toChain error'' else
     (case NextUint64 source of (height', eof, source) \<Rightarrow>
      if eof then Inl ''Waiting deserialize height error'' else
      Inr \<lparr>txIndex = txIndex', txId = txId', value' = val, toChain = toChain',
           height = height'\<rparr>)))))"

section \<open>PolyManager.init (part\_000, lines 217--241)\<close>

text \<open>
  \<open>findLatestHeight\<close> asks the ECCD contract of the destination chain for
  \<open>GetCurEpochStartHeight\<close>. The call is external: its answer is the argument, \<open>Inl err\<close>
  when the call fails and \<open>Inr h\<close> otherwise, the height \<open>h\<close> an unsigned integer of the
  binding's width. On failure the function returns 0; otherwise \<open>uint32(height)\<close>, the low
  32 bits.
\<close>

definition findLatestHeight :: "error + nat \<Rightarrow> uint32" where
  "findLatestHeight r = (case r of Inl err \<Rightarrow> 0 | Inr h \<Rightarrow> of_nat h)"

text \<open>
  \<open>init\<close> reads and writes \<open>this.currentHeight\<close>, which \<open>NewPolyManager\<close> set to the
  \<open>--polystart\<close> flag (0 when the flag is absent). \<open>polyHeight\<close> is what
  \<open>db.GetPolyHeight()\<close> returns and \<open>eccd\<close> the answer of the ECCD call. The result is the
  new \<open>currentHeight\<close>; the Go function always returns \<open>true\<close>.
\<close>

definition init :: "uint32 \<Rightarrow> uint32 \<Rightarrow> error + nat \<Rightarrow> uint32" where
  "init currentHeight polyHeight eccd =
     (if currentHeight > 0 then currentHeight
      else
        let currentHeight = polyHeight;
            latestHeight = findLatestHeight eccd
        in if latestHeight > currentHeight then latestHeight else currentHeight)"

section \<open>EthSender (part\_000, lines 588--832)\<close>

text \<open>
  What the sender asks of the destination chain's client, the contract ABI, the key store
  and the nonce manager is external. \<open>EthEnv\<close> holds the answers: a function of the
  request where the answer depends on one. \<open>TransactionStatus tx i\<close> is what the
  \<open>i\<close>-th round of polling for \<open>tx\<close> finds. \<open>uint64_overflow\<close> is what the platform
  makes of \<open>uint64(f)\<close> for a \<open>float32\<close> \<open>f\<close> that is not below \<open>2^64\<close>, \<open>getRouter\<close>
  the route drawn by \<open>rand.Int63n(RoutineNum)\<close> and \<open>rand\<close> the pseudo-random generator of
  \<open>selectSender\<close>: \<open>rand n\<close> is the number it draws from \<open>[0, n)\<close>.
\<close>

record Transaction =
  tx_nonce :: uint64
  tx_to :: string
  tx_gas :: uint64
  tx_gasPrice :: nat
  tx_data :: "byte list"

datatype poll = LookupError | Pending | ReceiptError | Receipt uint64

record EthEnv =
  ECCMContractAddress :: string
  SuggestGasPrice :: "error + nat"
  Pack :: "string \<Rightarrow> byte list list \<Rightarrow> error + byte list"
  EstimateGas :: "nat \<Rightarrow> byte list \<Rightarrow> error + uint64"
  GetAddressNonce :: uint64
  SignTransaction :: "Transaction \<Rightarrow> error + Transaction"
  SendTransaction :: "Transaction \<Rightarrow> error option"
  TransactionStatus :: "Transaction \<Rightarrow> nat \<Rightarrow> poll"
  ConvertToEthCompatible :: "byte list \<Rightarrow> byte list"
  NewEthCrossChainData :: "error option"
  CheckIfFromChainTxExist :: "uint64 \<Rightarrow> byte list \<Rightarrow> bool"
  DecodeString :: "string \<Rightarrow> byte list"
  uint64_overflow :: uint64
  getRouter :: string
  rand :: "int \<Rightarrow> int"

record EthTxInfo =
  txData :: "byte list"
  gasLimit :: uint64
  gasPrice :: nat
  contractAddr :: string
  polyTxHash' :: string

text \<open>
  Of an \<open>EthSender\<close> the model keeps \<open>cmap\<close>, an association list from the route to its
  channel, the channel being the list of jobs sent on it (the goroutine that receives them runs beside the sender and is not part of
  these functions), and \<open>Balance\<close>, the answers of the client to the account's balance
  query in the order they arrive.
\<close>

record EthSender =
  cmap :: "(string \<times> EthTxInfo list) list"
  Balance :: "(error + int) list"

definition ReceiptStatusSuccessful :: uint64 where
  "ReceiptStatusSuccessful = 1"

text \<open>
  \<open>waitTransactionConfirm\<close> polls once a second and gives up once five minutes have
  passed. \<open>elapsed\<close> is the number of seconds slept so far, which stands for the clock: the
  round after \<open>elapsed\<close> sleeps finds \<open>time.Now()\<close> after the deadline as soon as
  \<open>elapsed > 300\<close>.
\<close>

function waitTransactionConfirm :: "(nat \<Rightarrow> poll) \<Rightarrow> nat \<Rightarrow> bool" where
  "waitTransactionConfirm answers elapsed =
     (if elapsed > 300 then False
      else case answers elapsed of
             LookupError \<Rightarrow> waitTransactionConfirm answers (Suc elapsed)
           | Pending \<Rightarrow> waitTransactionConfirm answers (Suc elapsed)
           | ReceiptError \<Rightarrow> waitTransactionConfirm answers (Suc elapsed)
           | Receipt status \<Rightarrow> status = ReceiptStatusSuccessful)"
  by pat_completeness auto
termination
  by (relation "measure (\<lambda>(answers, elapsed). 301 - elapsed)") auto

text \<open>The loop over \<open>SigData\<close> that both commit functions run.\<close>

definition convertSigs :: "EthEnv \<Rightarrow> byte list list \<Rightarrow> byte list" where
  "convertSigs env sigData = concat (map (ConvertToEthCompatible env) sigData)"

text \<open>
  \<open>commitHeader\<close>. When \<open>Pack\<close> fails the code logs \<open>err.Error()\<close>, but the error is in
  \<open>txErr\<close> and \<open>err\<close> is nil there (it is the error of \<open>SuggestGasPrice\<close>, which
  succeeded): the call panics.
\<close>

definition commitHeader ::
  "('h, 'p) PolySDK \<Rightarrow> EthEnv \<Rightarrow> 'h \<Rightarrow> byte list \<Rightarrow> fault + bool" where
  "commitHeader sdk env hdr pubkList =
     (let headerdata = GetMessage sdk hdr in
      case SuggestGasPrice env of
        Inl err \<Rightarrow> Inr False
      | Inr price \<Rightarrow>
     (let sigs = convertSigs env (SigData sdk hdr) in
      case Pack env ''changeBookKeeper'' [headerdata, pubkList, sigs] of
        Inl txErr \<Rightarrow> Inl NilPointerDereference
      | Inr data \<Rightarrow>
     (let contractaddr = ECCMContractAddress env in
      case EstimateGas env price data of
        Inl err \<Rightarrow> Inr False
      | Inr limit \<Rightarrow>
     (let nonce = GetAddressNonce env;
          tx = \<lparr>tx_nonce = nonce, tx_to = contractaddr, tx_gas = limit,
                tx_gasPrice = price, tx_data = data\<rparr>
      in case SignTransaction env tx of
        Inl err \<Rightarrow> Inr False
      | Inr signedtx \<Rightarrow>
     (case SendTransaction env signedtx of
        Some err \<Rightarrow> Inr False
      | None \<Rightarrow>
     (let isSuccess = waitTransactionConfirm (TransactionStatus env signedtx) 0
      in Inr True))))))"

text \<open>
  Line 697 is \<open>gasLimit = uint64(float32(gasLimit) * 1.1)\<close>. Go converts an integer to
  \<open>float32\<close> and multiplies two \<open>float32\<close> values as IEEE 754 does, rounding to the
  nearest value with a significand of 24 binary digits, ties to the even one; the constant
  \<open>1.1\<close> is the \<open>float32\<close> nearest to it, \<open>9227469 / 2^23\<close>; the conversion to
  \<open>uint64\<close> cuts the fraction off. The values here are not negative and stay below
  \<open>2^128\<close>, so there is no sign, no subnormal number and no infinity, and the model
  computes on integers. \<open>bitlen n\<close> is the number of binary digits of \<open>n\<close>,
  \<open>round_half_even n s\<close> is \<open>n / 2^s\<close> rounded to the nearest integer, ties to even, and
  \<open>float32_of_int n\<close> the value of \<open>float32(n)\<close>, which is an integer.
  \<open>times_1_1_truncated m\<close> is \<open>m * 1.1\<close> in single precision with the fraction cut
  off, for a \<open>float32\<close> \<open>m\<close> that is an integer: the exact product is
  \<open>m * 9227469 / 2^23\<close>, and its significand the leading 24 digits of \<open>m * 9227469\<close>,
  rounded. Go leaves the value of \<open>uint64(f)\<close> open when \<open>f\<close> is not below \<open>2^64\<close>:
  \<open>inflate\<close> takes it as its first argument.
\<close>

function bitlen :: "int \<Rightarrow> nat" where
  "bitlen n = (if n \<le> 0 then 0 else Suc (bitlen (n div 2)))"
  by pat_completeness auto
termination
  by (relation "measure nat") auto

declare bitlen.simps [simp del]

definition round_half_even :: "int \<Rightarrow> nat \<Rightarrow> int" where
  "round_half_even n s =
     (let q = n div 2 ^ s; r = n mod 2 ^ s
      in if 2 * r > 2 ^ s \<or> (2 * r = 2 ^ s \<and> odd q) then q + 1 else q)"

definition float32_of_int :: "int \<Rightarrow> int" where
  "float32_of_int n = (let s = bitlen n - 24 in round_half_even n s * 2 ^ s)"

definition times_1_1_truncated :: "int \<Rightarrow> int" where
  "times_1_1_truncated m =
     (let p = m * 9227469; s = bitlen p - 24; q = round_half_even p s
      in if 23 \<le> s then q * 2 ^ (s - 23) else q div 2 ^ (23 - s))"

definition inflate :: "uint64 \<Rightarrow> uint64 \<Rightarrow> uint64" where
  "inflate overflow limit =
     (let f = times_1_1_truncated (float32_of_int (uint limit))
      in if f < 2 ^ 64 then word_of_int f else overflow)"

text \<open>
  \<open>commitDepositEventsWithHeader\<close>. \<open>depositSigs\<close> is its first loop (lines 637--651):
  the signatures of the anchor header when there is one with a proof, and of the header
  otherwise. \<open>param.TxHash[:32]\<close> are the first 32 bytes of the backing array of the
  hash, and panics when its capacity is below 32. The send on the route's channel appends
  the job to the route's list; a new route starts with an empty channel.
\<close>

definition depositSigs ::
  "('h, 'p) PolySDK \<Rightarrow> EthEnv \<Rightarrow> 'h \<Rightarrow> string \<Rightarrow> 'h option \<Rightarrow> byte list" where
  "depositSigs sdk env hdr hp anchor =
     (case anchor of
        Some a \<Rightarrow> if hp \<noteq> '''' then convertSigs env (SigData sdk a)
                  else convertSigs env (SigData sdk hdr)
      | None \<Rightarrow> convertSigs env (SigData sdk hdr))"

definition commitDepositEventsWithHeader ::
  "('h, 'p) PolySDK \<Rightarrow> EthEnv \<Rightarrow> EthSender \<Rightarrow> 'h \<Rightarrow> 'p \<Rightarrow> string \<Rightarrow> 'h option \<Rightarrow> string \<Rightarrow>
   byte list \<Rightarrow> (fault + bool) \<times> EthSender" where
  "commitDepositEventsWithHeader sdk env this hdr prm hp anchor txHash auditPath =
     (let sigs = depositSigs sdk env hdr hp anchor
      in case NewEthCrossChainData env of
        Some err \<Rightarrow> (Inl ExplicitPanic, this)
      | None \<Rightarrow>
      if length (TxHash sdk prm) + length (TxHash_spare sdk prm) < 32
      then (Inl SliceBoundsOutOfRange, this)
      else
     (let fromTx = take 32 (TxHash sdk prm @ TxHash_spare sdk prm);
          res = CheckIfFromChainTxExist env (FromChainID sdk prm) fromTx
      in if res then (Inr True, this)
      else
     (let rawProof = DecodeString env hp;
          rawAnchor = (case anchor of Some a \<Rightarrow> GetMessage sdk a | None \<Rightarrow> []);
          headerData = GetMessage sdk hdr
      in case Pack env ''verifyHeaderAndExecuteTx''
                [auditPath, headerData, rawProof, rawAnchor, sigs] of
        Inl err \<Rightarrow> (Inr False, this)
      | Inr data \<Rightarrow>
     (case SuggestGasPrice env of
        Inl err \<Rightarrow> (Inr False, this)
      | Inr price \<Rightarrow>
     (let contractaddr = ECCMContractAddress env in
      case EstimateGas env price data of
        Inl err \<Rightarrow> (Inr False, this)
      | Inr limit \<Rightarrow>
     (let limit = inflate (uint64_overflow env) limit in
      case CheckGasLimit txHash limit of
        Some e \<Rightarrow> (Inr True, this)
      | None \<Rightarrow>
     (let k = getRouter env;
          c = (case map_of (cmap this) k of Some c \<Rightarrow> c | None \<Rightarrow> []);
          info = \<lparr>txData = data, gasLimit = limit, gasPrice = price,
                  contractAddr = contractaddr, polyTxHash' = txHash\<rparr>
      in (Inr True, this\<lparr>cmap := AList.update k (c @ [info]) (cmap this)\<rparr>))))))))"

section \<open>PolyManager.selectSender (part\_000, lines 444--466)\<close>

text \<open>
  The retry loop around \<open>v.Balance()\<close> runs until an answer is not an error. When the
  answers run out with none, the loop is still retrying: \<open>None\<close>.
\<close>

fun Balance_retry :: "(error + int) list \<Rightarrow> int option" where
  "Balance_retry [] = None"
| "Balance_retry (Inl err # answers) = Balance_retry answers"
| "Balance_retry (Inr bal # answers) = Some bal"

text \<open>\<open>big.Int.Int64\<close>: the low 64 bits, read as a signed integer.\<close>

definition Int64 :: "int \<Rightarrow> int" where
  "Int64 x = sint (word_of_int x :: 64 word)"

text \<open>
  \<open>big.Int.Rand\<close> of the Go library sets the receiver to a pseudo-random number in
  \<open>[0, n)\<close>, and to 0 when \<open>n \<le> 0\<close>; it does not panic.
\<close>

definition Rand :: "(int \<Rightarrow> int) \<Rightarrow> int \<Rightarrow> int" where
  "Rand rnd n = (if n \<le> 0 then 0 else rnd n)"

text \<open>
  The first loop: \<open>acc\<close> is the running \<open>sum\<close>, and \<open>balArr\<close> holds the sums cut to 64
  bits.
\<close>

fun sumBalances :: "EthSender list \<Rightarrow> int \<Rightarrow> (int list \<times> int) option" where
  "sumBalances [] acc = Some ([], acc)"
| "sumBalances (v # vs) acc =
     (case Balance_retry (Balance v) of
        None \<Rightarrow> None
      | Some bal \<Rightarrow>
         (case sumBalances vs (acc + bal) of
            None \<Rightarrow> None
          | Some (balArr, whole) \<Rightarrow> Some (Int64 (acc + bal) # balArr, whole)))"

text \<open>The second loop: the first index \<open>i\<close> whose \<open>balArr[i]\<close> is at least the sample.\<close>

fun firstAtLeast :: "int list \<Rightarrow> int \<Rightarrow> nat \<Rightarrow> nat option" where
  "firstAtLeast [] sample i = None"
| "firstAtLeast (v # balArr) sample i =
     (if v \<ge> sample then Some i else firstAtLeast balArr sample (Suc i))"

text \<open>
  \<open>selectSender\<close> returns \<open>this.senders[i]\<close>; the model returns the index \<open>i\<close>. With no
  sender the final \<open>this.senders[0]\<close> is out of range.
\<close>

definition selectSender :: "(int \<Rightarrow> int) \<Rightarrow> EthSender list \<Rightarrow> (fault + nat) option" where
  "selectSender rnd senders' =
     (case sumBalances senders' 0 of
        None \<Rightarrow> None
      | Some (balArr, whole) \<Rightarrow>
         (let sample = Rand rnd whole in
          case firstAtLeast balArr sample 0 of
            Some i \<Rightarrow> Some (Inr i)
          | None \<Rightarrow> if senders' = [] then Some (Inl IndexOutOfRange) else Some (Inr 0)))"

section \<open>The store\<close>

text \<open>
  Modelled from the spec: the package \<open>db\<close> (the BoltDB buckets) is not among the sources.
  By section 6.2 of the spec the bucket \<open>bridge_transactions\<close> maps \<open>hex(txHash)\<close> to a
  serialized BridgeTransaction, \<open>retry\<close> holds serialized CrossTransfers under keys made
  from the content, and \<open>check\<close> maps an SC transaction hash to the retry value. A bucket
  is an association list with at most one entry per key; every operation succeeds.
  \<open>GetAllBridgeTransactions\<close> returns a Go map, whose iteration order Go leaves open: the
  model iterates in the order of the list, which is arbitrary.
\<close>

record BoltDB =
  bridge_transactions :: "(string \<times> byte list) list"
  retry :: "byte list list"
  check :: "(string \<times> byte list) list"

definition PutBridgeTransactions :: "string \<Rightarrow> byte list \<Rightarrow> BoltDB \<Rightarrow> BoltDB" where
  "PutBridgeTransactions k v d = d\<lparr>bridge_transactions := AList.update k v (bridge_transactions d)\<rparr>"

definition DeleteBridgeTransactions :: "string \<Rightarrow> BoltDB \<Rightarrow> BoltDB" where
  "DeleteBridgeTransactions k d = d\<lparr>bridge_transactions := AList.delete k (bridge_transactions d)\<rparr>"

definition PutRetry :: "byte list \<Rightarrow> BoltDB \<Rightarrow> BoltDB" where
  "PutRetry k d = d\<lparr>retry := List.insert k (retry d)\<rparr>"

definition DeleteRetry :: "byte list \<Rightarrow> BoltDB \<Rightarrow> BoltDB" where
  "DeleteRetry k d = d\<lparr>retry := removeAll k (retry d)\<rparr>"

definition PutCheck :: "string \<Rightarrow> byte list \<Rightarrow> BoltDB \<Rightarrow> BoltDB" where
  "PutCheck txHash v d = d\<lparr>check := AList.update txHash v (check d)\<rparr>"

section \<open>PolyManager.handleLockDepositEvents (part\_000, lines 480--576)\<close>

text \<open>
  The bridge-fee service and Go's \<open>big.Float\<close> are external. \<open>CheckFee\<close> answers a list of
  requests with a list of responses, or with nil (\<open>None\<close>). \<open>SetString\<close> parses a fee into
  a number of an ordered type with a zero, or fails (\<open>None\<close>). The pay states of the
  service are distinct constants; \<open>STATE_OTHER\<close> stands for every other state.
\<close>

datatype PayState = STATE_HASPAY | STATE_NOTPAY | STATE_NOTPOLYPROXY | STATE_OTHER

record CheckFeeReq =
  ChainId :: uint64
  Hash :: string

record CheckFeeRsp = CheckFeeReq +
  PayState :: PayState
  Amount :: string
  Error :: string

record 'f BridgeEnv =
  CheckFee :: "CheckFeeReq list \<Rightarrow> CheckFeeRsp list option"
  SetString :: "string \<Rightarrow> 'f option"

record PolyManager =
  db :: BoltDB
  senders :: "EthSender list"

text \<open>Lines 488--497: the loop that fills the map; an entry that fails to decode is skipped.\<close>

fun loadBridgeTransactions ::
  "('h, 'p) PolySDK \<Rightarrow> (string \<times> byte list) list \<Rightarrow> (string \<times> ('h, 'p) BridgeTransaction) list" where
  "loadBridgeTransactions sdk [] = []"
| "loadBridgeTransactions sdk ((k, v) # retryList) =
     (case Deserialization sdk v of
        Inl err \<Rightarrow> loadBridgeTransactions sdk retryList
      | Inr bridgeTransaction \<Rightarrow> (k, bridgeTransaction) # loadBridgeTransactions sdk retryList)"

text \<open>Lines 498--506.\<close>

definition noCheckFees ::
  "('h, 'p) PolySDK \<Rightarrow> (string \<times> ('h, 'p) BridgeTransaction) list \<Rightarrow> CheckFeeReq list" where
  "noCheckFees sdk bridgeTransactions =
     map (\<lambda>(k, v). \<lparr>ChainId = FromChainID sdk (param v), Hash = k\<rparr>)
       (filter (\<lambda>(k, v). hasPay v = FEE_NOCHECK) bridgeTransactions)"

text \<open>Lines 514--534: one response. The item is changed in place, through its pointer.\<close>

definition applyCheckFee ::
  "CheckFeeRsp \<Rightarrow> (string \<times> ('h, 'p) BridgeTransaction) list \<Rightarrow>
   (string \<times> ('h, 'p) BridgeTransaction) list" where
  "applyCheckFee checkFee bridgeTransactions =
     (if Error checkFee \<noteq> '''' then bridgeTransactions
      else case map_of bridgeTransactions (Hash checkFee) of
        None \<Rightarrow> bridgeTransactions
      | Some item \<Rightarrow>
          if PayState checkFee = STATE_HASPAY
          then AList.update (Hash checkFee)
                 (item\<lparr>hasPay := FEE_HASPAY, fee := Amount checkFee\<rparr>) bridgeTransactions
          else if PayState checkFee = STATE_NOTPAY
          then AList.update (Hash checkFee) (item\<lparr>hasPay := FEE_NOTPAY\<rparr>) bridgeTransactions
          else if PayState checkFee = STATE_NOTPOLYPROXY
          then AList.update (Hash checkFee) (item\<lparr>hasPay := FEE_NOTPAY\<rparr>) bridgeTransactions
          else bridgeTransactions)"

text \<open>Lines 507--537.\<close>

definition checkFees ::
  "('h, 'p) PolySDK \<Rightarrow> 'f BridgeEnv \<Rightarrow> (string \<times> ('h, 'p) BridgeTransaction) list \<Rightarrow>
   (string \<times> ('h, 'p) BridgeTransaction) list" where
  "checkFees sdk bridge bridgeTransactions =
     (let reqs = noCheckFees sdk bridgeTransactions in
      if length reqs > 0
      then (case CheckFee bridge reqs of
              None \<Rightarrow> bridgeTransactions
            | Some rsps \<Rightarrow> fold applyCheckFee rsps bridgeTransactions)
      else bridgeTransactions)"

text \<open>Lines 538--545: an item marked NOTPAY leaves the store and the map.\<close>

definition dropNotPay ::
  "(string \<times> ('h, 'p) BridgeTransaction) list \<Rightarrow> BoltDB \<Rightarrow>
   BoltDB \<times> (string \<times> ('h, 'p) BridgeTransaction) list" where
  "dropNotPay bridgeTransactions d =
     fold (\<lambda>(k, v) (d, m).
             if hasPay v = FEE_NOTPAY then (DeleteBridgeTransactions k d, AList.delete k m)
             else (d, m))
       bridgeTransactions (d, bridgeTransactions)"

text \<open>Lines 488--545 together: the store and the map as the selection finds them.\<close>

definition feeGate ::
  "('h, 'p) PolySDK \<Rightarrow> 'f BridgeEnv \<Rightarrow> BoltDB \<Rightarrow>
   BoltDB \<times> (string \<times> ('h, 'p) BridgeTransaction) list" where
  "feeGate sdk bridge d =
     (let retryList = bridge_transactions d;
          bridgeTransactions = loadBridgeTransactions sdk retryList;
          bridgeTransactions = checkFees sdk bridge bridgeTransactions
      in dropNotPay bridgeTransactions d)"

text \<open>
  Lines 546--559: the loop that picks the item to submit. \<open>selectStep\<close> is its body, on
  \<open>maxFee\<close>, \<open>maxFeeOfTransaction\<close> (nil is \<open>None\<close>) and \<open>maxFeeOfTxHash\<close>.
\<close>

fun selectStep ::
  "('f::{zero,linorder}) BridgeEnv \<Rightarrow> string \<times> ('h, 'p) BridgeTransaction \<Rightarrow>
   'f \<times> ('h, 'p) BridgeTransaction option \<times> string \<Rightarrow>
   'f \<times> ('h, 'p) BridgeTransaction option \<times> string" where
  "selectStep bridge (k, v) (maxFee, maxFeeOfTransaction, maxFeeOfTxHash) =
     (case SetString bridge (fee v) of
        None \<Rightarrow> (maxFee, maxFeeOfTransaction, maxFeeOfTxHash)
      | Some fee' \<Rightarrow>
          if hasPay v = FEE_HASPAY \<or> fee' > maxFee then (fee', Some v, k)
          else (maxFee, maxFeeOfTransaction, maxFeeOfTxHash))"

definition selectMaxFee ::
  "('f::{zero,linorder}) BridgeEnv \<Rightarrow> (string \<times> ('h, 'p) BridgeTransaction) list \<Rightarrow>
   'f \<times> ('h, 'p) BridgeTransaction option \<times> string" where
  "selectMaxFee bridge bridgeTransactions =
     fold (selectStep bridge) bridgeTransactions (0, None, '''')"

text \<open>Lines 570--574: what is left in the map is written back.\<close>

definition putAll ::
  "('h, 'p) PolySDK \<Rightarrow> (string \<times> ('h, 'p) BridgeTransaction) list \<Rightarrow> BoltDB \<Rightarrow> BoltDB" where
  "putAll sdk bridgeTransactions d =
     fold (\<lambda>(k, v) d. PutBridgeTransactions k (Serialization sdk v) d) bridgeTransactions d"

text \<open>
  The tick. \<open>None\<close>: \<open>selectSender\<close> never returns. \<open>Inl fault\<close>: the tick panics. Otherwise
  the manager as the tick leaves it.
\<close>

definition handleLockDepositEvents ::
  "('h, 'p) PolySDK \<Rightarrow> ('f::{zero,linorder}) BridgeEnv \<Rightarrow> EthEnv \<Rightarrow> PolyManager \<Rightarrow>
   (fault + PolyManager) option" where
  "handleLockDepositEvents sdk bridge env this =
     (let retryList = bridge_transactions (db this) in
      if length retryList = 0 then Some (Inr this)
      else
     (case feeGate sdk bridge (db this) of (d, bridgeTransactions) \<Rightarrow>
     (case selectMaxFee bridge bridgeTransactions of
        (maxFee, None, maxFeeOfTxHash) \<Rightarrow>
          Some (Inr (this\<lparr>db := putAll sdk bridgeTransactions d\<rparr>))
      | (maxFee, Some maxFeeOfTransaction, maxFeeOfTxHash) \<Rightarrow>
     (case selectSender (rand env) (senders this) of
        None \<Rightarrow> None
      | Some (Inl f) \<Rightarrow> Some (Inl f)
      | Some (Inr i) \<Rightarrow>
     (case commitDepositEventsWithHeader sdk env (senders this ! i)
             (header maxFeeOfTransaction) (param maxFeeOfTransaction)
             (headerProof maxFeeOfTransaction) (anchorHeader maxFeeOfTransaction)
             (EncodeToString (TxHash sdk (param maxFeeOfTransaction)))
             (rawAuditPath maxFeeOfTransaction) of
        (Inl f, sender) \<Rightarrow> Some (Inl f)
      | (Inr res, sender) \<Rightarrow>
     (case (if res
            then (DeleteBridgeTransactions maxFeeOfTxHash d,
                  AList.delete maxFeeOfTxHash bridgeTransactions)
            else (d, bridgeTransactions)) of
        (d, bridgeTransactions) \<Rightarrow>
          Some (Inr \<lparr>db = putAll sdk bridgeTransactions d,
                     senders = (senders this)[i := sender]\<rparr>)))))))"

section \<open>PolyManager.IsEpoch (part\_000, lines 286--324)\<close>

text \<open>
  The consensus payload is JSON that decodes to a \<open>VbftBlockInfo\<close> of the SC SDK; of it the
  function reads \<open>NewChainConfig.Peers[].ID\<close>. The JSON decoder, the hexadecimal decoder,
  the key codec and sort of the crypto library, the relayer's package \<open>tools\<close> (not among
  the sources) and Keccak-256 are external: \<open>EpochEnv\<close> adds them to \<open>EthEnv\<close>, the key
  type \<open>'k\<close> left open. \<open>DeserializePublicKey\<close> gives a nil key (\<open>None\<close>) on a malformed
  input; the code drops its error. \<open>GetNoCompresskey\<close> and \<open>GetEthNoCompressKey\<close> may panic.
\<close>

record PeerConfig =
  Index :: uint32
  ID :: string

record ChainConfig =
  Peers :: "PeerConfig list"

record VbftBlockInfo =
  NewChainConfig :: "ChainConfig option"

record 'k EpochEnv = EthEnv +
  Unmarshal :: "byte list \<Rightarrow> error + VbftBlockInfo"
  hex_DecodeString :: "string \<Rightarrow> byte list"
  DeserializePublicKey :: "byte list \<Rightarrow> 'k option"
  SortPublicKeys :: "'k list \<Rightarrow> 'k list"
  GetNoCompresskey :: "'k \<Rightarrow> fault + byte list"
  GetEthNoCompressKey :: "'k \<Rightarrow> fault + byte list"
  Keccak256 :: "byte list \<Rightarrow> byte list"
  GetCurEpochConPubKeyBytes :: "error + byte list"

definition ADDRESS_EMPTY :: "byte list" where
  "ADDRESS_EMPTY = replicate 20 0"

text \<open>The slice expression \<open>s[n:]\<close>, which panics when \<open>n\<close> exceeds the length.\<close>

definition slice_from :: "nat \<Rightarrow> byte list \<Rightarrow> fault + byte list" where
  "slice_from n s = (if n \<le> length s then Inr (drop n s) else Inl SliceBoundsOutOfRange)"

text \<open>Lines 315--319: the loop over the sorted keys, with \<open>publickeys\<close> and the sink.\<close>

fun keepersLoop ::
  "('k, 'z) EpochEnv_scheme \<Rightarrow> 'k list \<Rightarrow> byte list \<Rightarrow> byte list \<Rightarrow> fault + byte list \<times> byte list" where
  "keepersLoop env [] publickeys sink = Inr (publickeys, sink)"
| "keepersLoop env (key # keys) publickeys sink =
     (case GetNoCompresskey env key of
        Inl f \<Rightarrow> Inl f
      | Inr raw \<Rightarrow>
     (case GetEthNoCompressKey env key of
        Inl f \<Rightarrow> Inl f
      | Inr eth \<Rightarrow>
     (case slice_from 1 eth of
        Inl f \<Rightarrow> Inl f
      | Inr body \<Rightarrow>
     (case slice_from 12 (Keccak256 env body) of
        Inl f \<Rightarrow> Inl f
      | Inr addr \<Rightarrow> keepersLoop env keys (publickeys @ raw) (sink @ WriteVarBytes addr)))))"

text \<open>
  \<open>IsEpoch\<close> returns \<open>(bool, []byte, error)\<close>, with \<open>(false, nil, err)\<close> on every error: the
  model returns \<open>Inl err\<close> or \<open>Inr (bool, bytes)\<close> inside the panic result. A nil key makes
  the sort (two keys or more) or \<open>GetNoCompresskey\<close> (one key) panic.
\<close>

definition IsEpoch ::
  "('h, 'p) PolySDK \<Rightarrow> ('k, 'z) EpochEnv_scheme \<Rightarrow> 'h \<Rightarrow> fault + (error + bool \<times> byte list)" where
  "IsEpoch sdk env hdr =
     (case Unmarshal env (ConsensusPayload sdk hdr) of
        Inl err \<Rightarrow> Inr (Inl (''commitHeader - unmarshal blockInfo error: '' @ err))
      | Inr blkInfo \<Rightarrow>
     (case (if NextBookkeeper sdk hdr = ADDRESS_EMPTY then None else NewChainConfig blkInfo) of
        None \<Rightarrow> Inr (Inr (False, []))
      | Some cfg \<Rightarrow>
     (case NewEthCrossChainData env of
        Some err \<Rightarrow> Inr (Inl (''failed to new eccm: '' @ err))
      | None \<Rightarrow>
     (case GetCurEpochConPubKeyBytes env of
        Inl err \<Rightarrow> Inr (Inl (''failed to get current epoch keepers: '' @ err))
      | Inr rawKeepers \<Rightarrow>
     (let bookkeepers = map (\<lambda>peer. DeserializePublicKey env (hex_DecodeString env (ID peer)))
                           (Peers cfg)
      in if None \<in> set bookkeepers then Inl ExplicitPanic
      else
     (let bookkeepers = SortPublicKeys env (map the bookkeepers);
          sink = WriteUint64 (of_nat (length bookkeepers))
      in case keepersLoop env bookkeepers [] sink of
        Inl f \<Rightarrow> Inl f
      | Inr (publickeys, sink) \<Rightarrow>
          if rawKeepers = sink then Inr (Inr (False, []))
          else Inr (Inr (True, publickeys))))))))"

section \<open>HecoManager: header sync and rollback (part\_001, lines 388--442)\<close>

text \<open>
  What the DC monitor asks of the two chains is external; \<open>HecoEnv\<close> holds the answers.
  \<open>MAIN_CHAIN h\<close> is the answer of \<open>GetStorage\<close> for the key of height \<open>h\<close> in the header
  sync contract, \<open>HeaderByNumber h\<close> the hash bytes of DC's header at \<open>h\<close> (or the error
  of the call), \<open>SyncedAt tx i\<close> what the \<open>i\<close>-th round of polling finds for
  \<open>GetBlockHeightByTxHash\<close> and \<open>GetCurrentBlockHeight\<close>. After a failed
  \<open>HeaderByNumber\<close> the code goes on to \<open>hdr.Hash()\<close> with a nil \<open>hdr\<close>; what that
  gives is the client library's matter: \<open>nilHeaderHash\<close> is a panic or the bytes.
  \<open>MappingKeyAt\<close> is the function of the SC SDK's package \<open>eth\<close>: it decodes its two
  arguments as hexadecimal and fails on a text that does not decode.
\<close>

record HecoManager =
  currentHeight :: uint64
  header4sync :: "byte list list"

record HecoEnv =
  SyncBlockHeader :: "byte list list \<Rightarrow> error + string"
  SyncedAt :: "string \<Rightarrow> nat \<Rightarrow> uint32 \<times> uint32"
  MAIN_CHAIN :: "uint64 \<Rightarrow> error + byte list"
  HeaderByNumber :: "uint64 \<Rightarrow> error + byte list"
  nilHeaderHash :: "fault + byte list"
  CommitProofBlockConfig :: uint64
  MappingKeyAt :: "string \<Rightarrow> string \<Rightarrow> error + byte list"
  GetProof :: "string \<Rightarrow> string \<Rightarrow> error + byte list"
  ImportOuterTransfer :: "byte list \<Rightarrow> uint32 \<Rightarrow> byte list \<Rightarrow> error + string"
  EncodeBig :: "int \<Rightarrow> string"
  Encode :: "byte list \<Rightarrow> string"

text \<open>
  The loop of \<open>rollBackToCommAncestor\<close>, on \<open>this.currentHeight\<close>. It has no bound: where
  it runs forever the result is \<open>None\<close>. The post statement \<open>this.currentHeight--\<close> wraps
  around at 0. In the failure branch the height is incremented first, so the post statement
  brings the loop back to the same height.
\<close>

partial_function (option) rollBackLoop :: "HecoEnv \<Rightarrow> uint64 \<Rightarrow> (fault + uint64) option" where
  "rollBackLoop env cur =
     (case MAIN_CHAIN env cur of
        Inl err \<Rightarrow> rollBackLoop env (cur - 1)
      | Inr raw \<Rightarrow>
          if length raw = 0 then rollBackLoop env (cur - 1)
          else (case HeaderByNumber env cur of
                  Inr hash \<Rightarrow>
                    if hash = raw then Some (Inr cur) else rollBackLoop env (cur - 1)
                | Inl err \<Rightarrow>
                    (case nilHeaderHash env of
                       Inl f \<Rightarrow> Some (Inl f)
                     | Inr hash \<Rightarrow>
                         if hash = raw then Some (Inr (cur + 1))
                         else rollBackLoop env (cur + 1 - 1))))"

definition rollBackToCommAncestor :: "HecoEnv \<Rightarrow> HecoManager \<Rightarrow> (fault + HecoManager) option" where
  "rollBackToCommAncestor env this =
     (case rollBackLoop env (currentHeight this) of
        None \<Rightarrow> None
      | Some (Inl f) \<Rightarrow> Some (Inl f)
      | Some (Inr h) \<Rightarrow> Some (Inr (this\<lparr>currentHeight := h, header4sync := []\<rparr>)))"

text \<open>The loop that waits until the SC transaction is below the current SC height.\<close>

partial_function (option) waitSynced :: "(nat \<Rightarrow> uint32 \<times> uint32) \<Rightarrow> nat \<Rightarrow> uint32 option" where
  "waitSynced polls i =
     (case polls i of (h, current) \<Rightarrow>
        if h > 0 \<and> current > h then Some h else waitSynced polls (Suc i))"

text \<open>\<open>commitHecoHeaderToPoly\<close> returns 0 or 1 and leaves the manager changed.\<close>

definition commitHecoHeaderToPoly ::
  "HecoEnv \<Rightarrow> HecoManager \<Rightarrow> (fault + int \<times> HecoManager) option" where
  "commitHecoHeaderToPoly env this =
     (case SyncBlockHeader env (header4sync this) of
        Inl errDesc \<Rightarrow>
          if Contains errDesc ''parent header not exist'' \<or>
             Contains errDesc ''missing required field''
          then (case rollBackToCommAncestor env this of
                  None \<Rightarrow> None
                | Some (Inl f) \<Rightarrow> Some (Inl f)
                | Some (Inr this') \<Rightarrow> Some (Inr (0, this')))
          else Some (Inr (1, this))
      | Inr tx \<Rightarrow>
          (case waitSynced (SyncedAt env tx) 0 of
             None \<Rightarrow> None
           | Some h \<Rightarrow> Some (Inr (0, this\<lparr>header4sync := []\<rparr>))))"

section \<open>HecoManager: the retry bucket (part\_001, lines 466--546)\<close>

definition commitProof ::
  "HecoEnv \<Rightarrow> uint32 \<Rightarrow> byte list \<Rightarrow> byte list \<Rightarrow> byte list \<Rightarrow> error + string" where
  "commitProof env h prf val txhash =
     (case ImportOuterTransfer env val h prf of
        Inl err \<Rightarrow> Inl err
      | Inr tx \<Rightarrow> Inr tx)"

text \<open>
  One round of the loop of \<open>handleCachedLockDepositEvents\<close>, for the retry item \<open>v\<close>.
  \<open>int64(refHeight - CommitProofBlockConfig)\<close> reads the difference as a signed integer and
  \<open>uint32(height)\<close> keeps its low 32 bits.
\<close>

definition handleRetry :: "HecoEnv \<Rightarrow> uint64 \<Rightarrow> byte list \<Rightarrow> BoltDB \<Rightarrow> BoltDB" where
  "handleRetry env refHeight v d =
     (case CrossTransfer_Deserialization v of
        Inl err \<Rightarrow> d
      | Inr crosstx \<Rightarrow>
     (let key = txIndex crosstx in
      case MappingKeyAt env key ''01'' of
        Inl err \<Rightarrow> d
      | Inr keyBytes \<Rightarrow>
      if refHeight \<le> height crosstx + CommitProofBlockConfig env then d
      else
     (let h = sint (refHeight - CommitProofBlockConfig env);
          heightHex = EncodeBig env h;
          proofKey = Encode env keyBytes
      in case GetProof env proofKey heightHex of
        Inl err \<Rightarrow> d
      | Inr prf \<Rightarrow>
     (case commitProof env (word_of_int h) prf (value' crosstx) (txId crosstx) of
        Inl err \<Rightarrow>
          if Contains err ''chooseUtxos, current utxo is not enough'' then d
          else if Contains err ''tx already done'' then DeleteRetry v d
          else d
      | Inr txHash \<Rightarrow> DeleteRetry v (PutCheck txHash v d)))))"

definition handleCachedLockDepositEvents :: "HecoEnv \<Rightarrow> uint64 \<Rightarrow> BoltDB \<Rightarrow> BoltDB" where
  "handleCachedLockDepositEvents env refHeight d =
     (let retryList = retry d in fold (handleRetry env refHeight) retryList d)"

section \<open>Notions used in the claims\<close>

text \<open>
  \<open>notPayKeys m\<close> are the keys of the map \<open>m\<close> whose item is marked NOTPAY. An item is
  \<open>bounded\<close> when its strings and its byte array are shorter than \<open>2^64\<close>, the largest
  length the format can write.
\<close>

definition notPayKeys :: "(string \<times> ('h, 'p) BridgeTransaction) list \<Rightarrow> string set" where
  "notPayKeys m = {k. \<exists>v. (k, v) \<in> set m \<and> hasPay v = FEE_NOTPAY}"

definition bounded :: "('h, 'p) BridgeTransaction \<Rightarrow> bool" where
  "bounded b \<longleftrightarrow>
     length (headerProof b) < 2 ^ 64 \<and> length (polyTxHash b) < 2 ^ 64 \<and>
     length (rawAuditPath b) < 2 ^ 64 \<and> length (fee b) < 2 ^ 64"

text \<open>
  \<open>submittedKeys\<close> is the set of keys that a tick takes out of the store because of a
  submission to DC: the key of the item the tick selected, when a sender was found for it
  and \<open>commitDepositEventsWithHeader\<close> returned true; no key otherwise.
\<close>

definition submittedKeys ::
  "('h, 'p) PolySDK \<Rightarrow> ('f::{zero,linorder}) BridgeEnv \<Rightarrow> EthEnv \<Rightarrow> PolyManager \<Rightarrow> string set" where
  "submittedKeys sdk bridge env this =
     (case selectMaxFee bridge (snd (feeGate sdk bridge (db this))) of
        (maxFee, None, maxFeeOfTxHash) \<Rightarrow> {}
      | (maxFee, Some maxFeeOfTransaction, maxFeeOfTxHash) \<Rightarrow>
     (case selectSender (rand env) (senders this) of
        None \<Rightarrow> {}
      | Some (Inl f) \<Rightarrow> {}
      | Some (Inr i) \<Rightarrow>
          if fst (commitDepositEventsWithHeader sdk env (senders this ! i)
                   (header maxFeeOfTransaction) (param maxFeeOfTransaction)
                   (headerProof maxFeeOfTransaction) (anchorHeader maxFeeOfTransaction)
                   (EncodeToString (TxHash sdk (param maxFeeOfTransaction)))
                   (rawAuditPath maxFeeOfTransaction)) = Inr True
          then {maxFeeOfTxHash} else {}))"

text \<open>
  \<open>storedNotPay\<close> are the keys whose stored value decodes to an item marked NOTPAY, and
  \<open>answeredNotPay\<close> the keys for which the fee service answers, without an error, that the
  fee is not paid or that the transaction is not of the proxy.
\<close>

definition storedNotPay :: "('h, 'p) PolySDK \<Rightarrow> BoltDB \<Rightarrow> string set" where
  "storedNotPay sdk d =
     {k. \<exists>v b. (k, v) \<in> set (bridge_transactions d) \<and> Deserialization sdk v = Inr b \<and>
                hasPay b = FEE_NOTPAY}"

definition answeredNotPay :: "CheckFeeRsp list \<Rightarrow> string set" where
  "answeredNotPay rsps =
     {k. \<exists>r. r \<in> set rsps \<and> Hash r = k \<and> Error r = '''' \<and>
              (PayState r = STATE_NOTPAY \<or> PayState r = STATE_NOTPOLYPROXY)}"

text \<open>
  \<open>feeAnswers\<close> are the responses the tick gets from the fee service: none when no item
  is unchecked (the service is not asked) or when the service gives nil.
\<close>

definition feeAnswers :: "('h, 'p) PolySDK \<Rightarrow> 'f BridgeEnv \<Rightarrow> BoltDB \<Rightarrow> CheckFeeRsp list" where
  "feeAnswers sdk bridge d =
     (let reqs = noCheckFees sdk (loadBridgeTransactions sdk (bridge_transactions d))
      in if length reqs > 0
         then (case CheckFee bridge reqs of None \<Rightarrow> [] | Some rsps \<Rightarrow> rsps)
         else [])"

text \<open>
  The wire form of a keeper set, from the addresses of the sorted keys. \<open>keeperWire\<close> is
  what \<open>IsEpoch\<close> writes into its sink: the count as a \<open>uint64\<close> and each address as
  \<open>varbytes\<close>. \<open>claimedWire\<close> follows the words of the spec: the count as a \<open>varuint\<close>
  and the addresses one after the other. \<open>keeperAddress\<close> is the address of a key, from
  its uncompressed encoding \<open>eth\<close>: \<open>Keccak256(eth[1:])[12:]\<close>.
\<close>

definition keeperWire :: "byte list list \<Rightarrow> byte list" where
  "keeperWire addrs = WriteUint64 (of_nat (length addrs)) @ concat (map WriteVarBytes addrs)"

definition claimedWire :: "byte list list \<Rightarrow> byte list" where
  "claimedWire addrs = WriteVarUint (of_nat (length addrs)) @ concat addrs"

definition keeperAddress :: "('k, 'z) EpochEnv_scheme \<Rightarrow> byte list \<Rightarrow> byte list" where
  "keeperAddress env eth = drop 12 (Keccak256 env (drop 1 eth))"

section \<open>Sample data for the worked examples\<close>

text \<open>
  The examples run the model on concrete data. \<open>demo_sdk\<close> takes a header and a Merkle
  value to be one byte each, with a hash of 4 bytes at the start of a backing array of 64;
  \<open>demo_env\<close> is a destination chain where every call succeeds,
  the gas estimate is 363636 (which the 1.1 factor takes to 399999) and the receipt of a
  transaction reports failure; \<open>demo_env_at g\<close> is the same chain with the gas estimate
  \<open>g\<close>; \<open>demo_heco\<close> is a DC monitor whose header sync is refused
  with "parent header not exist", where SC's records agree with DC up to height 1000,
  differ from 1001 to 1020 and are absent above, where \<open>MappingKeyAt\<close> decodes its
  arguments and gives the two padded words (a stand-in for their Keccak-256), and where
  \<open>ImportOuterTransfer\<close> fails.
\<close>

definition demo_sdk :: "(byte, byte) PolySDK" where
  "demo_sdk =
     \<lparr>Header_Serialization = WriteUint8,
      Header_Deserialization =
        (\<lambda>s. case NextUint8 s of (b, eof, rest) \<Rightarrow> (if eof then Some ''EOF'' else None, b, rest)),
      ToMerkleValue_Serialization = WriteUint8,
      ToMerkleValue_Deserialization =
        (\<lambda>s. case NextUint8 s of (b, eof, rest) \<Rightarrow> (if eof then Some ''EOF'' else None, b, rest)),
      GetMessage = (\<lambda>h. [h]),
      SigData = (\<lambda>h. [[h]]),
      ConsensusPayload = (\<lambda>h. [h]),
      NextBookkeeper = (\<lambda>h. replicate 20 h),
      TxHash = (\<lambda>p. replicate 4 p),
      TxHash_spare = (\<lambda>p. replicate 60 0),
      FromChainID = ucast\<rparr>"

definition demo_env :: EthEnv where
  "demo_env =
     \<lparr>ECCMContractAddress = ''eccm'',
      SuggestGasPrice = Inr 1,
      Pack = (\<lambda>method args. Inr (concat args)),
      EstimateGas = (\<lambda>price data. Inr 363636),
      GetAddressNonce = 7,
      SignTransaction = Inr,
      SendTransaction = (\<lambda>tx. None),
      TransactionStatus = (\<lambda>tx i. Receipt 0),
      ConvertToEthCompatible = (\<lambda>sig. sig),
      NewEthCrossChainData = None,
      CheckIfFromChainTxExist = (\<lambda>chain h. False),
      DecodeString = (\<lambda>s. []),
      uint64_overflow = 0,
      getRouter = ''0'',
      rand = (\<lambda>n. 0)\<rparr>"

definition demo_env_at :: "uint64 \<Rightarrow> EthEnv" where
  "demo_env_at g = demo_env\<lparr>EstimateGas := (\<lambda>price data. Inr g)\<rparr>"

definition demo_heco :: HecoEnv where
  "demo_heco =
     \<lparr>SyncBlockHeader = (\<lambda>hdrs. Inl ''SyncBlockHeader, parent header not exist''),
      SyncedAt = (\<lambda>tx i. (0, 0)),
      MAIN_CHAIN = (\<lambda>h. if h \<le> 1000 then Inr [ucast h, 1] else if h \<le> 1020 then Inr [ucast h, 2] else Inr []),
      HeaderByNumber = (\<lambda>h. Inr [ucast h, 1]),
      nilHeaderHash = Inl NilPointerDereference,
      CommitProofBlockConfig = 21,
      MappingKeyAt =
        (\<lambda>position1 position2.
           case hexDecode position1 of
             None \<Rightarrow> Inl ''encoding/hex: invalid input''
           | Some p1 \<Rightarrow>
          (case hexDecode position2 of
             None \<Rightarrow> Inl ''encoding/hex: invalid input''
           | Some p2 \<Rightarrow> Inr (LeftPadBytes p1 32 @ LeftPadBytes p2 32))),
      GetProof = (\<lambda>proofKey heightHex. Inr [7]),
      ImportOuterTransfer = (\<lambda>val h prf. Inl ''current utxo is not enough, tx already done''),
      EncodeBig = (\<lambda>i. ''0x''),
      Encode = (\<lambda>bs. ''0x'')\<rparr>"

definition demo_crosstx :: CrossTransfer where
  "demo_crosstx = \<lparr>txIndex = ''07'', txId = [1, 2], value' = [3], toChain = 2, height = 100\<rparr>"

text \<open>
  \<open>demo_bridge\<close> is a fee service that is down, with the fees "1", "2" and "3" parsed to
  their numbers; \<open>demo_item f\<close> is a paid item with the fee \<open>f\<close> and \<open>demo_anchored\<close> an
  item with a header proof and an anchor header.
\<close>

definition demo_bridge :: "int BridgeEnv" where
  "demo_bridge =
     \<lparr>CheckFee = (\<lambda>reqs. None),
      SetString = (\<lambda>s. if s = ''1'' then Some 1 else if s = ''2'' then Some 2
                        else if s = ''3'' then Some 3 else None)\<rparr>"

definition demo_item :: "string \<Rightarrow> (byte, byte) BridgeTransaction" where
  "demo_item f =
     \<lparr>header = 0, param = 0, headerProof = '''', anchorHeader = None, polyTxHash = ''tx'',
      rawAuditPath = [], hasPay = FEE_HASPAY, fee = f\<rparr>"

definition demo_anchored :: "(byte, byte) BridgeTransaction" where
  "demo_anchored =
     \<lparr>header = 5, param = 6, headerProof = ''ab'', anchorHeader = Some 9, polyTxHash = ''tx'',
      rawAuditPath = [1, 2, 3], hasPay = FEE_HASPAY, fee = ''1.5''\<rparr>"

text \<open>
  \<open>demo_service\<close> is a fee service that answers NOTPAY to every request, and
  \<open>demo_manager\<close> a manager with one sender and two stored items: "a", not yet checked,
  and "c", paid with fee 1.
\<close>

definition demo_service :: "int BridgeEnv" where
  "demo_service =
     \<lparr>CheckFee = (\<lambda>reqs. Some (map (\<lambda>req. \<lparr>ChainId = ChainId req, Hash = Hash req,
                                             PayState = STATE_NOTPAY, Amount = '''', Error = ''''\<rparr>) reqs)),
      SetString = (\<lambda>s. if s = ''1'' then Some 1 else if s = ''2'' then Some 2
                        else if s = ''3'' then Some 3 else None)\<rparr>"

definition demo_manager :: PolyManager where
  "demo_manager =
     \<lparr>db = \<lparr>bridge_transactions =
               [(''a'', Serialization demo_sdk ((demo_item '''')\<lparr>hasPay := FEE_NOCHECK\<rparr>)),
                (''c'', Serialization demo_sdk (demo_item ''1''))],
             retry = [], check = []\<rparr>,
      senders = [\<lparr>cmap = [], Balance = [Inr 5]\<rparr>]\<rparr>"

text \<open>
  \<open>demo_epoch\<close> extends \<open>demo_env\<close>: a key is one byte, the payload lists the peers' keys,
  the stand-in for Keccak-256 returns 32 bytes, and DC reports the keeper set of the one
  key 7 in the wire form the spec describes.
\<close>

definition demo_epoch :: "byte EpochEnv" where
  "demo_epoch =
     \<lparr>ECCMContractAddress = ''eccm'',
      SuggestGasPrice = Inr 1,
      Pack = (\<lambda>method args. Inr (concat args)),
      EstimateGas = (\<lambda>price data. Inr 363636),
      GetAddressNonce = 7,
      SignTransaction = Inr,
      SendTransaction = (\<lambda>tx. None),
      TransactionStatus = (\<lambda>tx i. Receipt 0),
      ConvertToEthCompatible = (\<lambda>sig. sig),
      NewEthCrossChainData = None,
      CheckIfFromChainTxExist = (\<lambda>chain h. False),
      DecodeString = (\<lambda>s. []),
      uint64_overflow = 0,
      getRouter = ''0'',
      rand = (\<lambda>n. 0),
      Unmarshal = (\<lambda>payload. Inr \<lparr>NewChainConfig =
                     Some \<lparr>Peers = map (\<lambda>b. \<lparr>Index = 1, ID = string_of_bytes [b]\<rparr>) payload\<rparr>\<rparr>),
      hex_DecodeString = bytes_of_string,
      DeserializePublicKey = (\<lambda>bs. case bs of [b] \<Rightarrow> Some b | _ \<Rightarrow> None),
      SortPublicKeys = sort,
      GetNoCompresskey = (\<lambda>k. Inr (replicate 64 k)),
      GetEthNoCompressKey = (\<lambda>k. Inr (4 # replicate 64 k)),
      Keccak256 = (\<lambda>bs. take 32 (bs @ replicate 32 0)),
      GetCurEpochConPubKeyBytes = Inr (claimedWire [replicate 20 7])\<rparr>"

chapter \<open>The claims\<close>



section \<open>Helper: the text match of the error classification\<close>

text \<open>\<open>Contains s substr\<close> holds exactly when \<open>substr\<close> occurs in \<open>s\<close>.\<close>

lemma HasPrefix_iff: "HasPrefix s pre \<longleftrightarrow> (\<exists>q. s = pre @ q)"
  by (induction s pre rule: HasPrefix.induct) auto

lemma Contains_iff: "Contains s substr \<longleftrightarrow> (\<exists>p q. s = p @ substr @ q)"
proof (induction s)
  case Nil
  show ?case by auto
next
  case (Cons x s)
  show ?case
  proof
    assume "Contains (x # s) substr"
    then consider "HasPrefix (x # s) substr" | "Contains s substr" by auto
    then show "\<exists>p q. x # s = p @ substr @ q"
    proof cases
      case 1
      then obtain q where "x # s = substr @ q" by (auto simp: HasPrefix_iff)
      then have "x # s = [] @ substr @ q" by simp
      then show ?thesis by blast
    next
      case 2
      with Cons obtain p q where "s = p @ substr @ q" by blast
      then have "x # s = (x # p) @ substr @ q" by simp
      then show ?thesis by blast
    qed
  next
    assume "\<exists>p q. x # s = p @ substr @ q"
    then obtain p q where e: "x # s = p @ substr @ q" by blast
    show "Contains (x # s) substr"
    proof (cases p)
      case Nil
      with e have "HasPrefix (x # s) substr" by (auto simp: HasPrefix_iff)
      then show ?thesis by simp
    next
      case (Cons y p')
      with e have "s = p' @ substr @ q" by simp
      with Cons.IH have "Contains s substr" by blast
      then show ?thesis by simp
    qed
  qed
qed

section \<open>Helper: what the source reads back from the sink\<close>

lemma string_of_bytes_of_string: "string_of_bytes (bytes_of_string s) = s"
  by (induction s) (simp_all add: string_of_bytes_def bytes_of_string_def unat_of_nat)

lemma length_bytes_of_string: "length (bytes_of_string s) = length s"
  by (simp add: bytes_of_string_def)

lemma length_le_bytes: "length (le_bytes k n) = k"
  by (induction k arbitrary: n) simp_all

lemma le_nat_le_bytes: "le_nat (le_bytes k n) = n mod 256 ^ k"
proof (induction k arbitrary: n)
  case 0
  show ?case by simp
next
  case (Suc k)
  have "le_nat (le_bytes (Suc k) n) = n mod 256 + 256 * (n div 256 mod 256 ^ k)"
    by (simp add: Suc unat_of_nat)
  also have "\<dots> = n mod 256 ^ Suc k"
    by (simp add: mod_mult2_eq)
  finally show ?case .
qed

lemma NextBytes_append: "length d = n \<Longrightarrow> NextBytes n (d @ rest) = (d, False, rest)"
  by (simp add: NextBytes_def)

lemma NextUint8_Write: "NextUint8 (WriteUint8 v @ rest) = (v, False, rest)"
  by (simp add: NextUint8_def WriteUint8_def)

lemma NextUint16_Write: "NextUint16 (WriteUint16 v @ rest) = (v, False, rest)"
proof -
  have "unat v < 256 ^ 2" using unsigned_less [of v] by simp
  then show ?thesis
    by (simp add: NextUint16_def WriteUint16_def NextBytes_append length_le_bytes le_nat_le_bytes)
qed

lemma NextUint32_Write: "NextUint32 (WriteUint32 v @ rest) = (v, False, rest)"
proof -
  have "unat v < 256 ^ 4" using unsigned_less [of v] by simp
  then show ?thesis
    by (simp add: NextUint32_def WriteUint32_def NextBytes_append length_le_bytes le_nat_le_bytes)
qed

lemma NextUint64_Write: "NextUint64 (WriteUint64 v @ rest) = (v, False, rest)"
proof -
  have "unat v < 256 ^ 8" using unsigned_less [of v] by simp
  then show ?thesis
    by (simp add: NextUint64_def WriteUint64_def NextBytes_append length_le_bytes le_nat_le_bytes)
qed

lemma ucast_down_up:
  fixes v :: uint64
  assumes "unat v < 2 ^ LENGTH('a::len)"
  shows "(ucast (ucast v :: 'a word) :: uint64) = v"
proof -
  have "unat (ucast (ucast v :: 'a word) :: uint64) = unat v"
    using assms by (simp add: unsigned_ucast_eq unsigned_take_bit_eq take_bit_nat_eq_self)
  then show ?thesis by (simp add: word_unat_eq_iff)
qed

lemma unat_ucast_byte:
  fixes v :: uint64
  assumes "unat v < 256"
  shows "unat (ucast v :: byte) = unat v"
  using assms by (simp add: unsigned_ucast_eq unsigned_take_bit_eq take_bit_nat_eq_self)

lemma NextVarUint_Write: "NextVarUint (WriteVarUint v @ rest) = (v, False, rest)"
proof -
  consider "v < 0xFD" | "\<not> v < 0xFD" "v \<le> 0xFFFF" | "\<not> v \<le> 0xFFFF" "v \<le> 0xFFFFFFFF" | "\<not> v \<le> 0xFFFFFFFF"
    by blast
  then show ?thesis
  proof cases
    case 1
    then have lt: "unat v < 253" by (simp add: word_less_nat_alt)
    then have u: "unat (ucast v :: byte) = unat v" by (simp add: unat_ucast_byte)
    have a: "(ucast v :: byte) \<noteq> 0xFD" "(ucast v :: byte) \<noteq> 0xFE" "(ucast v :: byte) \<noteq> 0xFF"
      using lt u by (auto simp: word_unat_eq_iff)
    have b: "ucast (ucast v :: byte) = v"
      using lt by (intro ucast_down_up) simp
    show ?thesis using 1 a b
      by (simp add: NextVarUint_def WriteVarUint_def NextUint8_def)
  next
    case 2
    then have "unat v < 2 ^ 16" by (simp add: word_le_nat_alt)
    then have b: "ucast (ucast v :: uint16) = v"
      by (intro ucast_down_up) simp
    show ?thesis using 2 b
      by (simp add: NextVarUint_def WriteVarUint_def NextUint8_def NextUint16_Write)
  next
    case 3
    then have "unat v < 2 ^ 32" by (simp add: word_le_nat_alt)
    then have b: "ucast (ucast v :: uint32) = v"
      by (intro ucast_down_up) simp
    have n: "\<not> v < 0xFD" using 3 by (simp add: word_less_nat_alt word_le_nat_alt)
    show ?thesis using 3 b n
      by (simp add: NextVarUint_def WriteVarUint_def NextUint8_def NextUint32_Write)
  next
    case 4
    then have n: "\<not> v < 0xFD" "\<not> v \<le> 0xFFFF"
      by (simp_all add: word_less_nat_alt word_le_nat_alt)
    show ?thesis using 4 n
      by (simp add: NextVarUint_def WriteVarUint_def NextUint8_def NextUint64_Write)
  qed
qed

lemma NextVarBytes_Write:
  "length d < 2 ^ 64 \<Longrightarrow> NextVarBytes (WriteVarBytes d @ rest) = (d, False, rest)"
  by (simp add: NextVarBytes_def WriteVarBytes_def NextVarUint_Write unat_of_nat NextBytes_append)

lemma NextString_Write:
  "length s < 2 ^ 64 \<Longrightarrow> NextString (WriteString s @ rest) = (s, False, rest)"
  by (simp add: NextString_def WriteString_def NextVarBytes_Write string_of_bytes_of_string length_bytes_of_string)

section \<open>Helper: the gas guard of commitDepositEventsWithHeader\<close>

lemma commitDeposit_gas_guard:
  assumes "NewEthCrossChainData env = None"
    and "32 \<le> length (TxHash sdk prm) + length (TxHash_spare sdk prm)"
    and "\<not> CheckIfFromChainTxExist env (FromChainID sdk prm)
             (take 32 (TxHash sdk prm @ TxHash_spare sdk prm))"
    and "Pack env ''verifyHeaderAndExecuteTx''
           [auditPath, GetMessage sdk hdr, DecodeString env hp,
            (case anchor of Some a \<Rightarrow> GetMessage sdk a | None \<Rightarrow> []),
            depositSigs sdk env hdr hp anchor] = Inr data"
    and "SuggestGasPrice env = Inr price"
    and "EstimateGas env price data = Inr estimate"
    and "inflate (uint64_overflow env) estimate > 300000"
  shows "commitDepositEventsWithHeader sdk env this hdr prm hp anchor txHash auditPath =
           (Inr True, this)"
  using assms
  by (simp add: commitDepositEventsWithHeader_def Let_def CheckGasLimit_def)

section \<open>Helper: the phases of the tick\<close>

text \<open>
  What each loop of \<open>handleLockDepositEvents\<close> does to the keys of the store and of the
  map, and what \<open>Deserialization\<close> can read back.
\<close>

lemma bt_Put [simp]:
  "bridge_transactions (PutBridgeTransactions k v d) = AList.update k v (bridge_transactions d)"
  by (simp add: PutBridgeTransactions_def)

lemma bt_Delete [simp]:
  "bridge_transactions (DeleteBridgeTransactions k d) = AList.delete k (bridge_transactions d)"
  by (simp add: DeleteBridgeTransactions_def)

lemma putAll_keys:
  "fst ` set (bridge_transactions (putAll sdk m d)) = fst ` set (bridge_transactions d) \<union> fst ` set m"
proof (induction m arbitrary: d)
  case Nil
  show ?case by (simp add: putAll_def)
next
  case (Cons a m)
  obtain k v where a: "a = (k, v)" by (cases a)
  have "putAll sdk (a # m) d = putAll sdk m (PutBridgeTransactions k (Serialization sdk v) d)"
    by (simp add: putAll_def a)
  then show ?case using Cons.IH [of "PutBridgeTransactions k (Serialization sdk v) d"]
    by (auto simp: a dom_update)
qed

lemma putAll_map_of:
  "distinct (map fst m) \<Longrightarrow>
   map_of (bridge_transactions (putAll sdk m d)) k =
     (case map_of m k of
        Some b \<Rightarrow> Some (Serialization sdk b)
      | None \<Rightarrow> map_of (bridge_transactions d) k)"
proof (induction m arbitrary: d)
  case Nil
  show ?case by (simp add: putAll_def)
next
  case (Cons a m)
  obtain k' v where a: "a = (k', v)" by (cases a)
  have e: "putAll sdk ((k', v) # m) d = putAll sdk m (PutBridgeTransactions k' (Serialization sdk v) d)"
    by (simp add: putAll_def)
  from Cons.prems a have d: "distinct (map fst m)" and n: "k' \<notin> fst ` set m" by auto
  from n have "map_of m k' = None" by (simp add: map_of_eq_None_iff)
  then show ?case
    unfolding a e
    using Cons.IH [OF d, of "PutBridgeTransactions k' (Serialization sdk v) d"]
    by (auto simp: update_conv' split: option.splits)
qed

lemma dropNotPay_fold:
  "fold (\<lambda>(k, v) (d, m).
             if hasPay v = FEE_NOTPAY then (DeleteBridgeTransactions k d, AList.delete k m)
             else (d, m)) xs (d, m) = (d', m') \<Longrightarrow>
   bridge_transactions d' = filter (\<lambda>(k, v). k \<notin> notPayKeys xs) (bridge_transactions d) \<and>
   m' = filter (\<lambda>(k, v). k \<notin> notPayKeys xs) m"
proof (induction xs arbitrary: d m)
  case Nil
  then show ?case by (simp add: notPayKeys_def)
next
  case (Cons a xs)
  obtain k v where a: "a = (k, v)" by (cases a)
  show ?case
  proof (cases "hasPay v = FEE_NOTPAY")
    case True
    then have n: "notPayKeys (a # xs) = insert k (notPayKeys xs)"
      by (auto simp: notPayKeys_def a)
    from Cons.prems True a
    have "fold (\<lambda>(k, v) (d, m).
             if hasPay v = FEE_NOTPAY then (DeleteBridgeTransactions k d, AList.delete k m)
             else (d, m)) xs (DeleteBridgeTransactions k d, AList.delete k m) = (d', m')"
      by simp
    from Cons.IH [OF this] show ?thesis
      by (auto simp: n AList.delete_eq intro!: filter_cong)
  next
    case False
    then have n: "notPayKeys (a # xs) = notPayKeys xs"
      by (auto simp: notPayKeys_def a)
    from Cons.prems False a
    have "fold (\<lambda>(k, v) (d, m).
             if hasPay v = FEE_NOTPAY then (DeleteBridgeTransactions k d, AList.delete k m)
             else (d, m)) xs (d, m) = (d', m')"
      by simp
    from Cons.IH [OF this] show ?thesis by (simp add: n)
  qed
qed

lemma dropNotPay_result:
  assumes "dropNotPay m d = (d', m')"
  shows "bridge_transactions d' = filter (\<lambda>(k, v). k \<notin> notPayKeys m) (bridge_transactions d)"
    and "m' = filter (\<lambda>(k, v). k \<notin> notPayKeys m) m"
  using dropNotPay_fold [of m d m d' m'] assms by (simp_all add: dropNotPay_def)

lemma notPay_filter:
  assumes "distinct (map fst m)"
  shows "filter (\<lambda>(k, v). k \<notin> notPayKeys m) m = filter (\<lambda>(k, v). hasPay v \<noteq> FEE_NOTPAY) m"
proof (rule filter_cong [OF refl])
  fix x assume x: "x \<in> set m"
  obtain k v where kv: "x = (k, v)" by (cases x)
  have "k \<in> notPayKeys m \<longleftrightarrow> hasPay v = FEE_NOTPAY"
  proof
    assume "k \<in> notPayKeys m"
    then obtain v' where "(k, v') \<in> set m" "hasPay v' = FEE_NOTPAY" by (auto simp: notPayKeys_def)
    with assms x kv have "v' = v" by (meson eq_key_imp_eq_value)
    with \<open>hasPay v' = FEE_NOTPAY\<close> show "hasPay v = FEE_NOTPAY" by simp
  next
    assume "hasPay v = FEE_NOTPAY"
    with x kv show "k \<in> notPayKeys m" by (auto simp: notPayKeys_def)
  qed
  then show "(case x of (k, v) \<Rightarrow> k \<notin> notPayKeys m) = (case x of (k, v) \<Rightarrow> hasPay v \<noteq> FEE_NOTPAY)"
    by (simp add: kv)
qed

lemma applyCheckFee_keys: "map fst (applyCheckFee r m) = map fst m"
proof -
  have "\<And>item v. map_of m (Hash r) = Some item \<Longrightarrow> map fst (AList.update (Hash r) v m) = map fst m"
    by (auto simp: update_keys dest: map_of_SomeD intro: rev_image_eqI)
  then show ?thesis by (auto simp: applyCheckFee_def split: option.splits)
qed

lemma fold_applyCheckFee_keys: "map fst (fold applyCheckFee rs m) = map fst m"
  by (induction rs arbitrary: m) (simp_all add: applyCheckFee_keys)

lemma checkFees_keys: "map fst (checkFees sdk bridge m) = map fst m"
  by (simp add: checkFees_def Let_def fold_applyCheckFee_keys split: option.splits)

lemma load_subset:
  "(k, b) \<in> set (loadBridgeTransactions sdk l) \<Longrightarrow>
   \<exists>v. (k, v) \<in> set l \<and> Deserialization sdk v = Inr b"
proof (induction l)
  case Nil
  then show ?case by simp
next
  case (Cons a l)
  obtain k' v' where a: "a = (k', v')" by (cases a)
  from Cons show ?case by (auto simp: a split: sum.splits)
qed

lemma load_member:
  "(k, v) \<in> set l \<Longrightarrow> Deserialization sdk v = Inr b \<Longrightarrow> (k, b) \<in> set (loadBridgeTransactions sdk l)"
proof (induction l)
  case Nil
  then show ?case by simp
next
  case (Cons a l)
  obtain k' v' where a: "a = (k', v')" by (cases a)
  from Cons show ?case by (auto simp: a split: sum.splits)
qed

lemma load_distinct:
  "distinct (map fst l) \<Longrightarrow> distinct (map fst (loadBridgeTransactions sdk l))"
proof (induction l)
  case Nil
  then show ?case by simp
next
  case (Cons a l)
  obtain k' v' where a: "a = (k', v')" by (cases a)
  from Cons show ?case
    by (auto simp: a split: sum.splits dest!: load_subset intro: rev_image_eqI)
qed

lemma selectStep_fold_member:
  fixes bridge :: "('f::{zero,linorder}) BridgeEnv"
  shows "fold (selectStep bridge) m (f0, t0, k0) = (f, Some tx, k) \<Longrightarrow>
         (k, tx) \<in> set m \<or> (t0 = Some tx \<and> k0 = k)"
proof (induction m arbitrary: f0 t0 k0)
  case Nil
  then show ?case by simp
next
  case (Cons a m)
  obtain k' v' where a: "a = (k', v')" by (cases a)
  obtain f1 t1 k1 where st: "selectStep bridge (k', v') (f0, t0, k0) = (f1, t1, k1)"
    by (cases "selectStep bridge (k', v') (f0, t0, k0)")
  from Cons.prems have "fold (selectStep bridge) m (f1, t1, k1) = (f, Some tx, k)"
    by (simp add: a st del: selectStep.simps)
  from Cons.IH [OF this] have "(k, tx) \<in> set m \<or> t1 = Some tx \<and> k1 = k" .
  moreover have "(t1 = t0 \<and> k1 = k0) \<or> (t1 = Some v' \<and> k1 = k')"
    using st by (auto split: option.splits if_splits)
  ultimately show ?case by (auto simp: a)
qed

lemma selectMaxFee_member:
  fixes bridge :: "('f::{zero,linorder}) BridgeEnv"
  shows "selectMaxFee bridge m = (f, Some tx, k) \<Longrightarrow> (k, tx) \<in> set m"
  using selectStep_fold_member [of bridge m 0 None "''''" f tx k]
  by (simp add: selectMaxFee_def)

lemma NextBytes_length: "NextBytes n s = (d, False, rest) \<Longrightarrow> length d = n"
  by (auto simp: NextBytes_def split: if_splits)

lemma NextVarBytes_length: "NextVarBytes s = (d, False, rest) \<Longrightarrow> length d < 2 ^ 64"
proof -
  assume a: "NextVarBytes s = (d, False, rest)"
  obtain count eof rest' where c: "NextVarUint s = (count, eof, rest')"
    by (cases "NextVarUint s")
  with a have "NextBytes (unat count) rest' = (d, False, rest)"
    by (auto simp: NextVarBytes_def split: if_splits)
  then have "length d = unat count" by (rule NextBytes_length)
  moreover have "unat count < 2 ^ 64" using unsigned_less [of count] by simp
  ultimately show ?thesis by simp
qed

lemma NextString_length: "NextString s = (d, False, rest) \<Longrightarrow> length d < 2 ^ 64"
proof -
  assume a: "NextString s = (d, False, rest)"
  obtain v eof rest' where c: "NextVarBytes s = (v, eof, rest')"
    by (cases "NextVarBytes s")
  with a have "NextVarBytes s = (v, False, rest)" "d = string_of_bytes v"
    by (auto simp: NextString_def)
  with NextVarBytes_length [of s v rest] show ?thesis by (simp add: string_of_bytes_def)
qed

lemma Deserialization_bounded: "Deserialization sdk v = Inr b \<Longrightarrow> bounded b"
  unfolding Deserialization_def bounded_def
  by (auto split: prod.splits option.splits if_splits sum.splits
      dest: NextString_length NextVarBytes_length)

lemma Deserialization_Serialization_hasPay:
  assumes "\<forall>h rest. Header_Deserialization sdk (Header_Serialization sdk h @ rest) = (None, h, rest)"
    and "\<forall>p rest. ToMerkleValue_Deserialization sdk (ToMerkleValue_Serialization sdk p @ rest) =
            (None, p, rest)"
    and "bounded b"
  shows "\<exists>b'. Deserialization sdk (Serialization sdk b) = Inr b' \<and> hasPay b' = hasPay b"
proof (cases "anchorHeader b = None \<or> headerProof b = ''''")
  case True
  with assms show ?thesis
    by (auto simp: bounded_def Deserialization_def Serialization_def NextUint8_Write
        NextString_Write NextVarBytes_Write NextString_Write [of _ "[]", simplified]
        split: option.splits)
next
  case False
  with assms show ?thesis
    by (auto simp: bounded_def Deserialization_def Serialization_def NextUint8_Write
        NextString_Write NextVarBytes_Write NextString_Write [of _ "[]", simplified])
qed

lemma set_AList_update: "set (AList.update k v al) \<subseteq> insert (k, v) (set al)"
  by (induction al) auto

lemma applyCheckFee_pres:
  assumes "\<forall>(k, b) \<in> set m. P b"
    and "\<And>item. P item \<Longrightarrow> P (item\<lparr>hasPay := FEE_HASPAY, fee := Amount r\<rparr>)"
    and "\<And>item. P item \<Longrightarrow> P (item\<lparr>hasPay := FEE_NOTPAY\<rparr>)"
  shows "\<forall>(k, b) \<in> set (applyCheckFee r m). P b"
proof (cases "map_of m (Hash r)")
  case None
  with assms(1) show ?thesis by (simp add: applyCheckFee_def)
next
  case (Some item)
  then have Pi: "P item" using assms(1) by (auto dest: map_of_SomeD)
  have "applyCheckFee r m = m \<or> (\<exists>v. P v \<and> applyCheckFee r m = AList.update (Hash r) v m)"
    using Some assms(2) [OF Pi] assms(3) [OF Pi] by (auto simp: applyCheckFee_def)
  then show ?thesis
  proof
    assume "applyCheckFee r m = m"
    with assms(1) show ?thesis by simp
  next
    assume "\<exists>v. P v \<and> applyCheckFee r m = AList.update (Hash r) v m"
    then obtain v where v: "P v" "applyCheckFee r m = AList.update (Hash r) v m" by blast
    have "set (AList.update (Hash r) v m) \<subseteq> insert (Hash r, v) (set m)"
      by (rule set_AList_update)
    with v assms(1) show ?thesis by auto
  qed
qed

lemma fold_applyCheckFee_pres:
  assumes "\<forall>(k, b) \<in> set m. P b"
    and "\<And>item r. r \<in> set rs \<Longrightarrow> P item \<Longrightarrow> P (item\<lparr>hasPay := FEE_HASPAY, fee := Amount r\<rparr>)"
    and "\<And>item. P item \<Longrightarrow> P (item\<lparr>hasPay := FEE_NOTPAY\<rparr>)"
  shows "\<forall>(k, b) \<in> set (fold applyCheckFee rs m). P b"
  using assms
proof (induction rs arbitrary: m)
  case Nil
  then show ?case by simp
next
  case (Cons r rs)
  have "\<forall>(k, b) \<in> set (applyCheckFee r m). P b"
    by (rule applyCheckFee_pres) (use Cons.prems in auto)
  then have "\<forall>(k, b) \<in> set (fold applyCheckFee rs (applyCheckFee r m)). P b"
    by (rule Cons.IH) (use Cons.prems in auto)
  then show ?case by simp
qed

lemma checkFees_bounded:
  assumes "\<forall>(k, b) \<in> set m. bounded b"
    and "\<forall>reqs rsps r. CheckFee bridge reqs = Some rsps \<longrightarrow> r \<in> set rsps \<longrightarrow>
           length (Amount r) < 2 ^ 64"
  shows "\<forall>(k, b) \<in> set (checkFees sdk bridge m). bounded b"
proof (cases "CheckFee bridge (noCheckFees sdk m)")
  case None
  with assms(1) show ?thesis by (simp add: checkFees_def Let_def)
next
  case (Some rsps)
  have "\<forall>(k, b) \<in> set (fold applyCheckFee rsps m). bounded b"
  proof (rule fold_applyCheckFee_pres [OF assms(1)])
    fix item :: "('a, 'b) BridgeTransaction" and r
    assume "r \<in> set rsps" "bounded item"
    with assms(2) Some show "bounded (item\<lparr>hasPay := FEE_HASPAY, fee := Amount r\<rparr>)"
      by (auto simp: bounded_def)
  next
    fix item :: "('a, 'b) BridgeTransaction"
    assume "bounded item"
    then show "bounded (item\<lparr>hasPay := FEE_NOTPAY\<rparr>)" by (simp add: bounded_def)
  qed
  with Some assms(1) show ?thesis by (simp add: checkFees_def Let_def)
qed

lemma delete_dom: "fst ` set (AList.delete k al) = fst ` set al - {k}"
  by (auto simp: AList.delete_eq)

lemma feeGate_props:
  assumes dist: "distinct (map fst (bridge_transactions d))"
    and gate: "feeGate sdk bridge d = (d1, m1)"
  shows "distinct (map fst m1)"
    and "fst ` set m1 \<subseteq> fst ` set (bridge_transactions d1)"
    and "\<forall>(k, b) \<in> set m1. hasPay b \<noteq> FEE_NOTPAY"
    and "\<And>k v b. map_of (bridge_transactions d1) k = Some v \<Longrightarrow> Deserialization sdk v = Inr b \<Longrightarrow>
           k \<in> fst ` set m1"
    and "(\<forall>reqs rsps r. CheckFee bridge reqs = Some rsps \<longrightarrow> r \<in> set rsps \<longrightarrow>
           length (Amount r) < 2 ^ 64) \<Longrightarrow> \<forall>(k, b) \<in> set m1. bounded b"
proof -
  define l where "l = bridge_transactions d"
  define L where "L = loadBridgeTransactions sdk l"
  define mc where "mc = checkFees sdk bridge L"
  from gate have drop: "dropNotPay mc d = (d1, m1)"
    by (simp add: feeGate_def Let_def mc_def L_def l_def)
  have keys: "map fst mc = map fst L" by (simp add: mc_def checkFees_keys)
  have dL: "distinct (map fst L)" using dist by (simp add: L_def l_def load_distinct)
  then have dmc: "distinct (map fst mc)" by (simp add: keys)
  have d1: "bridge_transactions d1 = filter (\<lambda>(k, v). k \<notin> notPayKeys mc) l"
    using dropNotPay_result(1) [OF drop] by (simp add: l_def)
  have m1: "m1 = filter (\<lambda>(k, v). k \<notin> notPayKeys mc) mc"
    using dropNotPay_result(2) [OF drop] .
  have m1': "m1 = filter (\<lambda>(k, v). hasPay v \<noteq> FEE_NOTPAY) mc"
    using m1 notPay_filter [OF dmc] by simp
  show "distinct (map fst m1)" using dmc by (simp add: m1 distinct_map_filter)
  show "\<forall>(k, b) \<in> set m1. hasPay b \<noteq> FEE_NOTPAY" by (auto simp: m1')
  show "fst ` set m1 \<subseteq> fst ` set (bridge_transactions d1)"
  proof
    fix k assume "k \<in> fst ` set m1"
    then obtain b where b: "(k, b) \<in> set mc" "k \<notin> notPayKeys mc" by (auto simp: m1)
    then have "k \<in> set (map fst mc)" by (auto intro: rev_image_eqI)
    then have "k \<in> fst ` set L" by (simp add: keys)
    then obtain b' where "(k, b') \<in> set L" by auto
    then obtain v where "(k, v) \<in> set l" using load_subset [of k b' sdk l] by (auto simp: L_def)
    with b(2) show "k \<in> fst ` set (bridge_transactions d1)"
      by (auto simp: d1 intro!: rev_image_eqI)
  qed
  show "k \<in> fst ` set m1"
    if "map_of (bridge_transactions d1) k = Some v" "Deserialization sdk v = Inr b" for k v b
  proof -
    from that(1) have "(k, v) \<in> set (bridge_transactions d1)" by (rule map_of_SomeD)
    then have kv: "(k, v) \<in> set l" "k \<notin> notPayKeys mc" by (auto simp: d1)
    from load_member [OF kv(1) that(2)] have "(k, b) \<in> set L" by (simp add: L_def)
    then have "k \<in> set (map fst L)" by (auto intro: rev_image_eqI)
    then have "k \<in> set (map fst mc)" by (simp add: keys)
    then obtain b' where "(k, b') \<in> set mc" by auto
    with kv(2) show ?thesis by (auto simp: m1 intro!: rev_image_eqI)
  qed
  show "\<forall>(k, b) \<in> set m1. bounded b"
    if am: "\<forall>reqs rsps r. CheckFee bridge reqs = Some rsps \<longrightarrow> r \<in> set rsps \<longrightarrow>
           length (Amount r) < 2 ^ 64"
  proof -
    have "\<forall>(k, b) \<in> set L. bounded b"
      using load_subset [of _ _ sdk l] Deserialization_bounded [of sdk]
      by (fastforce simp: L_def)
    from checkFees_bounded [OF this am] have "\<forall>(k, b) \<in> set mc. bounded b"
      by (simp add: mc_def)
    then show ?thesis by (auto simp: m1)
  qed
qed

lemma feeGate_empty:
  "bridge_transactions d = [] \<Longrightarrow> feeGate sdk bridge d = (d, [])"
  by (simp add: feeGate_def checkFees_def noCheckFees_def dropNotPay_def)

lemma tick_outcome:
  fixes bridge :: "('f::{zero,linorder}) BridgeEnv"
  assumes "handleLockDepositEvents sdk bridge env this = Some (Inr this')"
  shows "\<exists>d1 m1. feeGate sdk bridge (db this) = (d1, m1) \<and>
           ((db this' = putAll sdk m1 d1 \<and> submittedKeys sdk bridge env this = {}) \<or>
            (\<exists>k \<in> fst ` set m1.
               db this' = putAll sdk (AList.delete k m1) (DeleteBridgeTransactions k d1) \<and>
               submittedKeys sdk bridge env this = {k}))"
proof (cases "bridge_transactions (db this) = []")
  case True
  with assms have "this' = this" by (simp add: handleLockDepositEvents_def)
  with True show ?thesis
    by (simp add: feeGate_empty putAll_def submittedKeys_def selectMaxFee_def)
next
  case False
  obtain d1 m1 where g: "feeGate sdk bridge (db this) = (d1, m1)"
    by (cases "feeGate sdk bridge (db this)")
  obtain mf mt mk where s: "selectMaxFee bridge m1 = (mf, mt, mk)"
    by (cases "selectMaxFee bridge m1")
  show ?thesis
  proof (cases mt)
    case None
    with assms False g s have "db this' = putAll sdk m1 d1"
      by (auto simp: handleLockDepositEvents_def)
    moreover from None g s have "submittedKeys sdk bridge env this = {}"
      by (simp add: submittedKeys_def)
    ultimately show ?thesis using g by simp
  next
    case (Some tx)
    with s have "(mk, tx) \<in> set m1" by (simp add: selectMaxFee_member)
    then have mem: "mk \<in> fst ` set m1" by (auto intro: rev_image_eqI)
    from assms False g s Some
    obtain i where pick: "selectSender (rand env) (senders this) = Some (Inr i)"
      by (auto simp: handleLockDepositEvents_def split: option.splits sum.splits)
    obtain r sender where c: "commitDepositEventsWithHeader sdk env (senders this ! i)
        (header tx) (param tx) (headerProof tx) (anchorHeader tx)
        (EncodeToString (TxHash sdk (param tx))) (rawAuditPath tx) = (r, sender)"
      by (cases "commitDepositEventsWithHeader sdk env (senders this ! i)
        (header tx) (param tx) (headerProof tx) (anchorHeader tx)
        (EncodeToString (TxHash sdk (param tx))) (rawAuditPath tx)")
    from assms False g s Some pick c obtain res where r: "r = Inr res"
      by (cases r) (auto simp: handleLockDepositEvents_def)
    show ?thesis
    proof (cases res)
      case True
      with assms False g s Some pick c r
      have "db this' = putAll sdk (AList.delete mk m1) (DeleteBridgeTransactions mk d1)"
        by (auto simp: handleLockDepositEvents_def)
      moreover from True g s Some pick c r have "submittedKeys sdk bridge env this = {mk}"
        by (simp add: submittedKeys_def)
      ultimately show ?thesis using g mem by auto
    next
      case False
      with assms \<open>bridge_transactions (db this) \<noteq> []\<close> g s Some pick c r
      have "db this' = putAll sdk m1 d1"
        by (auto simp: handleLockDepositEvents_def)
      moreover from False g s Some pick c r have "submittedKeys sdk bridge env this = {}"
        by (simp add: submittedKeys_def)
      ultimately show ?thesis using g by simp
    qed
  qed
qed

lemma applyCheckFee_notPay:
  "notPayKeys (applyCheckFee r m) \<subseteq> notPayKeys m \<union> answeredNotPay [r]"
proof
  fix k assume "k \<in> notPayKeys (applyCheckFee r m)"
  then obtain b where b: "(k, b) \<in> set (applyCheckFee r m)" "hasPay b = FEE_NOTPAY"
    by (auto simp: notPayKeys_def)
  show "k \<in> notPayKeys m \<union> answeredNotPay [r]"
  proof (cases "(k, b) \<in> set m")
    case True
    with b(2) show ?thesis by (auto simp: notPayKeys_def)
  next
    case False
    with b(1) have ne: "applyCheckFee r m \<noteq> m" by auto
    then obtain item where item: "map_of m (Hash r) = Some item" and err: "Error r = ''''"
      by (auto simp: applyCheckFee_def split: option.splits if_splits)
    from ne item err have "\<exists>v. applyCheckFee r m = AList.update (Hash r) v m \<and>
        (hasPay v = FEE_HASPAY \<or> PayState r = STATE_NOTPAY \<or> PayState r = STATE_NOTPOLYPROXY)"
      by (auto simp: applyCheckFee_def split: if_splits)
    then obtain v where v: "applyCheckFee r m = AList.update (Hash r) v m"
      "hasPay v = FEE_HASPAY \<or> PayState r = STATE_NOTPAY \<or> PayState r = STATE_NOTPOLYPROXY"
      by blast
    from b(1) False v(1) set_AList_update [of "Hash r" v m] have kv: "k = Hash r" "b = v"
      by auto
    with b(2) v(2) have "PayState r = STATE_NOTPAY \<or> PayState r = STATE_NOTPOLYPROXY"
      by (auto simp: FEE_HASPAY_def FEE_NOTPAY_def)
    with kv err show ?thesis by (auto simp: answeredNotPay_def)
  qed
qed

lemma fold_applyCheckFee_notPay:
  "notPayKeys (fold applyCheckFee rs m) \<subseteq> notPayKeys m \<union> answeredNotPay rs"
proof (induction rs arbitrary: m)
  case Nil
  show ?case by simp
next
  case (Cons r rs)
  have "notPayKeys (fold applyCheckFee (r # rs) m) \<subseteq>
        notPayKeys (applyCheckFee r m) \<union> answeredNotPay rs"
    using Cons.IH [of "applyCheckFee r m"] by simp
  also have "\<dots> \<subseteq> (notPayKeys m \<union> answeredNotPay [r]) \<union> answeredNotPay rs"
    using applyCheckFee_notPay [of r m] by auto
  also have "\<dots> \<subseteq> notPayKeys m \<union> answeredNotPay (r # rs)"
    by (auto simp: answeredNotPay_def)
  finally show ?case .
qed

lemma checkFees_notPay:
  "notPayKeys (checkFees sdk bridge (loadBridgeTransactions sdk (bridge_transactions d))) \<subseteq>
     storedNotPay sdk d \<union> answeredNotPay (feeAnswers sdk bridge d)"
proof -
  define L where "L = loadBridgeTransactions sdk (bridge_transactions d)"
  have st: "notPayKeys L \<subseteq> storedNotPay sdk d"
    unfolding L_def notPayKeys_def storedNotPay_def
    using load_subset [of _ _ sdk "bridge_transactions d"] by blast
  have "notPayKeys (checkFees sdk bridge L) \<subseteq> notPayKeys L \<union> answeredNotPay (feeAnswers sdk bridge d)"
    using fold_applyCheckFee_notPay [of _ L]
    by (auto simp: checkFees_def feeAnswers_def Let_def L_def split: option.splits)
  with st show ?thesis unfolding L_def by blast
qed

lemma dropNotPay_keys:
  assumes "dropNotPay m d = (d', m')"
  shows "fst ` set (bridge_transactions d') = fst ` set (bridge_transactions d) - notPayKeys m"
  unfolding dropNotPay_result(1) [OF assms] by force

section \<open>C1: the item a tick submits\<close>

text \<open>
  The loop takes a new candidate at every item that has paid and whose fee parses,
  whatever the fee: a paid item that comes last in the iteration is the one selected.
\<close>

lemma selectMaxFee_last_paid:
  assumes "hasPay v = FEE_HASPAY" and "SetString bridge (fee v) = Some f"
  shows "selectMaxFee bridge (bts @ [(k, v)]) = (f, Some v, k)"
proof -
  obtain f0 t0 k0 where "fold (selectStep bridge) bts (0, None, '''') = (f0, t0, k0)"
    by (cases "fold (selectStep bridge) bts (0, None, '''')")
  with assms show ?thesis by (simp add: selectMaxFee_def)
qed

text \<open>
  C1 says that the item submitted is the one with the largest fee. With three paid items of
  fees 3, 2 and 1, met in this order, the loop ends with the item of fee 1 (and 1 as
  \<open>maxFee\<close>): the test \<open>hasPay == FEE_HASPAY || fee.Cmp(maxFee) > 0\<close> does not compare
  the fee of a paid item.
\<close>

theorem selectMaxFee_takes_last_paid:
  "selectMaxFee demo_bridge
     [(''a'', demo_item ''3''), (''b'', demo_item ''2''), (''c'', demo_item ''1'')] =
   (1, Some (demo_item ''1''), ''c'')"
  by (simp add: selectMaxFee_def demo_bridge_def demo_item_def)

section \<open>C2: epoch detection\<close>

text \<open>
  The two wire forms differ for every list of addresses: they differ in length.
\<close>

lemma length_WriteVarUint: "length (WriteVarUint v) \<le> 9"
  by (simp add: WriteVarUint_def WriteUint16_def WriteUint32_def WriteUint64_def length_le_bytes)

lemma length_WriteUint64: "length (WriteUint64 v) = 8"
  by (simp add: WriteUint64_def length_le_bytes)

lemma length_concat_WriteVarBytes:
  "length addrs + length (concat addrs) \<le> length (concat (map WriteVarBytes addrs))"
proof (induction addrs)
  case Nil
  show ?case by simp
next
  case (Cons a addrs)
  have "1 \<le> length (WriteVarUint (of_nat (length a)))"
    by (simp add: WriteVarUint_def WriteUint16_def)
  with Cons show ?case by (simp add: WriteVarBytes_def)
qed

lemma WriteVarUint_small: "v < 0xFD \<Longrightarrow> length (WriteVarUint v) = 1"
  by (simp add: WriteVarUint_def)

lemma keeperWire_never_claimedWire: "keeperWire addrs \<noteq> claimedWire addrs"
proof
  assume e: "keeperWire addrs = claimedWire addrs"
  have k: "8 + length addrs + length (concat addrs) \<le> length (keeperWire addrs)"
    using length_concat_WriteVarBytes [of addrs] by (simp add: keeperWire_def length_WriteUint64)
  have c: "length (claimedWire addrs) = length (WriteVarUint (of_nat (length addrs))) + length (concat addrs)"
    by (simp add: claimedWire_def)
  show False
  proof (cases "length addrs < 2")
    case True
    then have "length addrs = 0 \<or> length addrs = 1" by linarith
    then have "length (WriteVarUint (of_nat (length addrs))) = 1"
      by (auto simp: WriteVarUint_def)
    with k c e show False by simp
  next
    case False
    with k c e length_WriteVarUint [of "of_nat (length addrs)"] show False by simp
  qed
qed

lemma keepersLoop_ok:
  assumes "\<forall>k \<in> set keys. GetNoCompresskey env k = Inr (raw k) \<and>
             GetEthNoCompressKey env k = Inr (eth k) \<and> 1 \<le> length (eth k) \<and>
             12 \<le> length (Keccak256 env (drop 1 (eth k)))"
  shows "keepersLoop env keys publickeys sink =
           Inr (publickeys @ concat (map raw keys),
                sink @ concat (map (\<lambda>k. WriteVarBytes (keeperAddress env (eth k))) keys))"
  using assms
  by (induction keys arbitrary: publickeys sink) (simp_all add: slice_from_def keeperAddress_def)

text \<open>
  C2 as stated fails on the wire form: the code writes the count with \<open>WriteUint64\<close> and
  each address with \<open>WriteVarBytes\<close>, not a \<open>varuint\<close> count and the bare addresses. When
  DC reports the keeper set of the header in the wire form of the claim, \<open>IsEpoch\<close> does
  not return \<open>(false, empty)\<close>: it reports a new epoch.
\<close>

theorem IsEpoch_claimed_wire_counterexample:
  "GetCurEpochConPubKeyBytes demo_epoch =
     Inr (WriteVarUint 1 @ drop 12 (Keccak256 demo_epoch (drop 1 (4 # replicate 64 7)))) \<and>
   IsEpoch demo_sdk demo_epoch 7 = Inr (Inr (True, replicate 64 7))"
  by code_simp


text \<open>
  C2 as amended, for a header whose payload decodes: with the empty sentinel as
  \<open>nextBookkeeper\<close> or no \<open>newChainConfig\<close> the result is \<open>(false, empty)\<close>. Otherwise,
  when the ECCD query answers \<open>rawKeepers\<close>, every peer key decodes and the two encodings
  of every sorted key are there (\<open>raw\<close> from \<open>GetNoCompresskey\<close>, \<open>eth\<close> from
  \<open>GetEthNoCompressKey\<close>, not empty, with a digest of 12 bytes or more), the wire form is
  the 8-byte count followed by each address as \<open>varbytes\<close>; the result is
  \<open>(false, empty)\<close> when \<open>rawKeepers\<close> equals it and otherwise \<open>true\<close> with the
  concatenation of the \<open>raw\<close> encodings of the sorted keys.
\<close>

theorem IsEpoch_wire_form:
  assumes "Unmarshal env (ConsensusPayload sdk hdr) = Inr blkInfo"
  shows "(NextBookkeeper sdk hdr = ADDRESS_EMPTY \<or> NewChainConfig blkInfo = None \<longrightarrow>
            IsEpoch sdk env hdr = Inr (Inr (False, []))) \<and>
         (NextBookkeeper sdk hdr \<noteq> ADDRESS_EMPTY \<longrightarrow>
          NewChainConfig blkInfo = Some cfg \<longrightarrow>
          NewEthCrossChainData env = None \<longrightarrow>
          GetCurEpochConPubKeyBytes env = Inr rawKeepers \<longrightarrow>
          map (\<lambda>peer. DeserializePublicKey env (hex_DecodeString env (ID peer))) (Peers cfg) =
            map Some keys \<longrightarrow>
          (\<forall>k \<in> set (SortPublicKeys env keys).
             GetNoCompresskey env k = Inr (raw k) \<and>
             GetEthNoCompressKey env k = Inr (eth k) \<and> 1 \<le> length (eth k) \<and>
             12 \<le> length (Keccak256 env (drop 1 (eth k)))) \<longrightarrow>
          IsEpoch sdk env hdr =
            Inr (Inr (if rawKeepers =
                         keeperWire (map (\<lambda>k. keeperAddress env (eth k)) (SortPublicKeys env keys))
                      then (False, [])
                      else (True, concat (map raw (SortPublicKeys env keys))))))"
proof (intro conjI impI)
  assume "NextBookkeeper sdk hdr = ADDRESS_EMPTY \<or> NewChainConfig blkInfo = None"
  with assms show "IsEpoch sdk env hdr = Inr (Inr (False, []))"
    by (auto simp: IsEpoch_def)
next
  assume a: "NextBookkeeper sdk hdr \<noteq> ADDRESS_EMPTY" "NewChainConfig blkInfo = Some cfg"
    "NewEthCrossChainData env = None" "GetCurEpochConPubKeyBytes env = Inr rawKeepers"
    and keys: "map (\<lambda>peer. DeserializePublicKey env (hex_DecodeString env (ID peer))) (Peers cfg) =
            map Some keys"
    and ok: "\<forall>k \<in> set (SortPublicKeys env keys).
             GetNoCompresskey env k = Inr (raw k) \<and>
             GetEthNoCompressKey env k = Inr (eth k) \<and> 1 \<le> length (eth k) \<and>
             12 \<le> length (Keccak256 env (drop 1 (eth k)))"
  have loop: "keepersLoop env (SortPublicKeys env keys) []
                (WriteUint64 (of_nat (length (SortPublicKeys env keys)))) =
           Inr (concat (map raw (SortPublicKeys env keys)),
                keeperWire (map (\<lambda>k. keeperAddress env (eth k)) (SortPublicKeys env keys)))"
    using keepersLoop_ok [OF ok, of "[]"] by (simp add: keeperWire_def comp_def)
  have t: "map the (map Some keys) = keys" by (simp add: comp_def)
  show "IsEpoch sdk env hdr =
            Inr (Inr (if rawKeepers =
                         keeperWire (map (\<lambda>k. keeperAddress env (eth k)) (SortPublicKeys env keys))
                      then (False, [])
                      else (True, concat (map raw (SortPublicKeys env keys)))))"
    using assms a loop by (simp add: IsEpoch_def keys t Let_def)
qed

text \<open>
  On \<open>demo_epoch\<close>: a new epoch when DC reports the wire form of the claim, none when it
  reports the one of the code, which is 8 bytes of count, the length 20 and the address.
\<close>

theorem IsEpoch_wire_form_witness:
  "IsEpoch demo_sdk demo_epoch 7 = Inr (Inr (True, replicate 64 7)) \<and>
   IsEpoch demo_sdk (demo_epoch\<lparr>GetCurEpochConPubKeyBytes := Inr (keeperWire [replicate 20 7])\<rparr>) 7 =
     Inr (Inr (False, [])) \<and>
   keeperWire [replicate 20 7] = [1, 0, 0, 0, 0, 0, 0, 0, 20] @ replicate 20 7"
proof -
  let ?cfg = "\<lparr>Peers = [\<lparr>Index = 1, ID = string_of_bytes [7]\<rparr>]\<rparr>"
  have u: "Unmarshal demo_epoch (ConsensusPayload demo_sdk 7) = Inr \<lparr>NewChainConfig = Some ?cfg\<rparr>"
    by (simp add: demo_epoch_def demo_sdk_def)
  have b: "NextBookkeeper demo_sdk 7 \<noteq> ADDRESS_EMPTY"
    by code_simp
  have c: "NewChainConfig \<lparr>NewChainConfig = Some ?cfg\<rparr> = Some ?cfg"
    by simp
  have n: "NewEthCrossChainData demo_epoch = None"
    by (simp add: demo_epoch_def)
  have r: "GetCurEpochConPubKeyBytes demo_epoch = Inr (claimedWire [replicate 20 7])"
    by (simp add: demo_epoch_def)
  have k: "map (\<lambda>peer. DeserializePublicKey demo_epoch (hex_DecodeString demo_epoch (ID peer)))
      (Peers ?cfg) = map Some [7]"
    by code_simp
  have s: "SortPublicKeys demo_epoch [7] = [7]"
    by (simp add: demo_epoch_def)
  have ok: "\<forall>k \<in> set (SortPublicKeys demo_epoch [7]).
      GetNoCompresskey demo_epoch k = Inr (replicate 64 k) \<and>
      GetEthNoCompressKey demo_epoch k = Inr (4 # replicate 64 k) \<and>
      1 \<le> length (4 # replicate 64 k) \<and>
      12 \<le> length (Keccak256 demo_epoch (drop 1 (4 # replicate 64 k)))"
    by (simp add: demo_epoch_def)
  have a: "keeperAddress demo_epoch (4 # replicate 64 7) = replicate 20 7"
    by code_simp
  have d: "claimedWire [replicate 20 7] \<noteq> keeperWire [replicate 20 7]"
    using keeperWire_never_claimedWire [of "[replicate 20 7]"] by simp
  have w: "keeperWire [replicate 20 7] = [1, 0, 0, 0, 0, 0, 0, 0, 20] @ replicate 20 7"
    by code_simp
  have f: "IsEpoch demo_sdk
      (demo_epoch\<lparr>GetCurEpochConPubKeyBytes := Inr (keeperWire [replicate 20 7])\<rparr>) 7 =
     Inr (Inr (False, []))"
    by code_simp
  from IsEpoch_wire_form [OF u, where cfg = ?cfg and rawKeepers = "claimedWire [replicate 20 7]"
      and keys = "[7]" and raw = "\<lambda>k. replicate 64 k" and eth = "\<lambda>k. 4 # replicate 64 k"]
    b c n r k ok
  have "IsEpoch demo_sdk demo_epoch 7 = Inr (Inr (True, replicate 64 7))"
    by (simp add: s a d)
  with f w show ?thesis by simp
qed

section \<open>C3: the round trip of the binary format\<close>

text \<open>
  C3: for a BridgeTransaction \<open>b\<close> with valid fields, \<open>Deserialization\<close> of the bytes of
  \<open>Serialization\<close> gives \<open>b\<close> back, the header proof and the anchor header included; and
  likewise for a CrossTransfer \<open>c\<close>. The fields are valid when the SDK reads the header,
  the Merkle value and the anchor header back from what it wrote for them, the header
  proof and the anchor header are both present or both absent (the presence byte stands
  for the pair), and every string and byte array is shorter than \<open>2^64\<close> (as every Go
  value is).
\<close>

theorem serialization_round_trip:
  assumes "\<forall>rest. Header_Deserialization sdk (Header_Serialization sdk (header b) @ rest) =
             (None, header b, rest)"
    and "\<forall>rest. ToMerkleValue_Deserialization sdk (ToMerkleValue_Serialization sdk (param b) @ rest) =
             (None, param b, rest)"
    and "\<forall>a rest. anchorHeader b = Some a \<longrightarrow>
             Header_Deserialization sdk (Header_Serialization sdk a @ rest) = (None, a, rest)"
    and "(headerProof b = '''') = (anchorHeader b = None)"
    and "length (headerProof b) < 2 ^ 64" "length (polyTxHash b) < 2 ^ 64"
      "length (rawAuditPath b) < 2 ^ 64" "length (fee b) < 2 ^ 64"
    and "length (txIndex c) < 2 ^ 64" "length (txId c) < 2 ^ 64" "length (value' c) < 2 ^ 64"
  shows "Deserialization sdk (Serialization sdk b) = Inr b \<and>
         CrossTransfer_Deserialization (CrossTransfer_Serialization c) = Inr c"
proof
  show "CrossTransfer_Deserialization (CrossTransfer_Serialization c) = Inr c"
    using assms(9-11)
    by (simp add: CrossTransfer_Deserialization_def CrossTransfer_Serialization_def
        NextString_Write NextVarBytes_Write NextUint32_Write
        NextUint64_Write [of _ "[]", simplified])
  show "Deserialization sdk (Serialization sdk b) = Inr b"
  proof (cases "anchorHeader b")
    case None
    with assms(4) have "headerProof b = ''''" by simp
    with None assms(1,2,5-8) show ?thesis
      by (simp add: Deserialization_def Serialization_def NextUint8_Write NextString_Write
          NextVarBytes_Write NextString_Write [of _ "[]", simplified])
  next
    case (Some a)
    with assms(4) have hp: "headerProof b \<noteq> ''''" by simp
    from Some assms(3) have a: "\<forall>rest. Header_Deserialization sdk (Header_Serialization sdk a @ rest) = (None, a, rest)"
      by simp
    from Some hp a assms(1,2,5-8) show ?thesis
      by (simp add: Deserialization_def Serialization_def NextUint8_Write NextString_Write
          NextVarBytes_Write NextString_Write [of _ "[]", simplified])
  qed
qed

text \<open>The round trip of an item with proof and anchor, and of a CrossTransfer.\<close>

theorem serialization_round_trip_witness:
  "Deserialization demo_sdk (Serialization demo_sdk demo_anchored) = Inr demo_anchored \<and>
   CrossTransfer_Deserialization (CrossTransfer_Serialization demo_crosstx) = Inr demo_crosstx"
proof -
  have h: "\<forall>rest. Header_Deserialization demo_sdk
             (Header_Serialization demo_sdk (header demo_anchored) @ rest) =
             (None, header demo_anchored, rest)"
    by (simp add: demo_sdk_def NextUint8_Write)
  have p: "\<forall>rest. ToMerkleValue_Deserialization demo_sdk
             (ToMerkleValue_Serialization demo_sdk (param demo_anchored) @ rest) =
             (None, param demo_anchored, rest)"
    by (simp add: demo_sdk_def NextUint8_Write)
  have a: "\<forall>a rest. anchorHeader demo_anchored = Some a \<longrightarrow>
             Header_Deserialization demo_sdk (Header_Serialization demo_sdk a @ rest) = (None, a, rest)"
    by (simp add: demo_sdk_def NextUint8_Write)
  have q: "(headerProof demo_anchored = '''') = (anchorHeader demo_anchored = None)"
    by (simp add: demo_anchored_def)
  have l: "length (headerProof demo_anchored) < 2 ^ 64" "length (polyTxHash demo_anchored) < 2 ^ 64"
      "length (rawAuditPath demo_anchored) < 2 ^ 64" "length (fee demo_anchored) < 2 ^ 64"
    "length (txIndex demo_crosstx) < 2 ^ 64" "length (txId demo_crosstx) < 2 ^ 64"
    "length (value' demo_crosstx) < 2 ^ 64"
    by (simp_all add: demo_anchored_def demo_crosstx_def)
  from serialization_round_trip [OF h p a q l] show ?thesis .
qed

text \<open>
  The pair condition is needed: a header proof without an anchor header is written as
  "absent" and comes back empty.
\<close>

lemma unpaired_proof_is_dropped:
  "Deserialization demo_sdk (Serialization demo_sdk (demo_anchored\<lparr>anchorHeader := None\<rparr>)) =
     Inr (demo_anchored\<lparr>anchorHeader := None, headerProof := ''''\<rparr>)"
  by code_simp

section \<open>C4: the starting height of the SC monitor\<close>

text \<open>
  C4 as stated (the starting height is the maximum of the flag override, the persisted
  polyHeight and the ECCD epoch start height) fails: a non-zero flag is returned as it is,
  also when the two other values are larger. With flag 5, persisted height 100 and epoch
  start height 200 the monitor starts at 5, not at 200.
\<close>

theorem init_not_max_of_three_counterexample:
  "init 5 100 (Inr 200) = 5 \<and>
   init 5 100 (Inr 200) \<noteq> max 5 (max 100 (findLatestHeight (Inr 200)))"
  by (simp add: init_def findLatestHeight_def)

text \<open>
  C4 as amended: a non-zero flag override is the starting height; with no flag (0) the
  starting height is the maximum of the persisted polyHeight and the ECCD epoch start
  height (0 when the ECCD call fails).
\<close>

theorem init_start_height:
  "init flag polyHeight eccd =
     (if flag \<noteq> 0 then flag else max polyHeight (findLatestHeight eccd))"
  by (auto simp: init_def Let_def max_def word_greater_zero_iff)

section \<open>C5: rollback to the common ancestor\<close>

text \<open>
  Walking down from \<open>H\<close>, the loop passes every height where SC has no record or where
  DC's hash differs from it, and stops at the first height \<open>g\<close> where SC's record is
  DC's hash.
\<close>

lemma rollBackLoop_ancestor:
  assumes agree: "MAIN_CHAIN env g = Inr raw" "raw \<noteq> []" "HeaderByNumber env g = Inr raw"
  shows "g \<le> H \<Longrightarrow>
    (\<forall>h. g < h \<and> h \<le> H \<longrightarrow>
       (case MAIN_CHAIN env h of
          Inl err \<Rightarrow> True
        | Inr r \<Rightarrow> r = [] \<or> (\<exists>hash. HeaderByNumber env h = Inr hash \<and> hash \<noteq> r))) \<Longrightarrow>
    rollBackLoop env H = Some (Inr g)"
proof (induction "unat H - unat g" arbitrary: H)
  case 0
  then have "H = g" by (simp add: word_le_nat_alt word_unat_eq_iff)
  with agree show ?case by (subst rollBackLoop.simps) simp
next
  case (Suc n)
  then have lt: "g < H" by (simp add: word_less_nat_alt)
  then have nz: "unat H \<noteq> 0" by (simp add: word_less_nat_alt)
  then have "H \<noteq> 0" by (auto simp: word_unat_eq_iff)
  then have u: "unat (H - 1) = unat H - 1" by (simp add: unat_minus_one)
  from Suc.hyps(2) u have n: "n = unat (H - 1) - unat g" by simp
  from lt u have le: "g \<le> H - 1" by (simp add: word_le_nat_alt word_less_nat_alt)
  have d: "\<forall>h. g < h \<and> h \<le> H - 1 \<longrightarrow>
       (case MAIN_CHAIN env h of
          Inl err \<Rightarrow> True
        | Inr r \<Rightarrow> r = [] \<or> (\<exists>hash. HeaderByNumber env h = Inr hash \<and> hash \<noteq> r))"
  proof (intro allI impI)
    fix h assume h: "g < h \<and> h \<le> H - 1"
    then have "unat h \<le> unat H - 1" using u by (simp add: word_le_nat_alt)
    then have "h \<le> H" by (simp add: word_le_nat_alt)
    with h Suc.prems(2) show "case MAIN_CHAIN env h of
          Inl err \<Rightarrow> True
        | Inr r \<Rightarrow> r = [] \<or> (\<exists>hash. HeaderByNumber env h = Inr hash \<and> hash \<noteq> r)"
      by blast
  qed
  from Suc.hyps(1) [OF n le d] have ih: "rollBackLoop env (H - 1) = Some (Inr g)" .
  from Suc.prems(2) lt have here: "case MAIN_CHAIN env H of
          Inl err \<Rightarrow> True
        | Inr r \<Rightarrow> r = [] \<or> (\<exists>hash. HeaderByNumber env H = Inr hash \<and> hash \<noteq> r)"
    by blast
  show ?case
    using here ih by (subst rollBackLoop.simps) (auto split: sum.splits)
qed

text \<open>
  C5: when \<open>SyncBlockHeader\<close> fails with an error that contains "parent header not exist"
  or "missing required field", \<open>commitHecoHeaderToPoly\<close> calls
  \<open>rollBackToCommAncestor\<close>. If \<open>g\<close> is the greatest height at or below the starting
  \<open>currentHeight\<close> where SC's recorded hash is DC's header hash (above \<open>g\<close>, up to the start,
  SC has no record or DC's header has another hash), the rollback returns with
  \<open>currentHeight = g\<close> and an empty \<open>header4sync\<close>, and the commit returns 0.
\<close>

theorem rollBack_reaches_common_ancestor:
  assumes "SyncBlockHeader env (header4sync this) = Inl errDesc"
    and "Contains errDesc ''parent header not exist'' \<or> Contains errDesc ''missing required field''"
    and "g \<le> currentHeight this"
    and "MAIN_CHAIN env g = Inr raw" "raw \<noteq> []" "HeaderByNumber env g = Inr raw"
    and "\<forall>h. g < h \<and> h \<le> currentHeight this \<longrightarrow>
       (case MAIN_CHAIN env h of
          Inl err \<Rightarrow> True
        | Inr r \<Rightarrow> r = [] \<or> (\<exists>hash. HeaderByNumber env h = Inr hash \<and> hash \<noteq> r))"
  shows "rollBackToCommAncestor env this = Some (Inr \<lparr>currentHeight = g, header4sync = []\<rparr>) \<and>
         commitHecoHeaderToPoly env this = Some (Inr (0, \<lparr>currentHeight = g, header4sync = []\<rparr>))"
proof -
  from rollBackLoop_ancestor [OF assms(4,5,6,3,7)]
  have "rollBackLoop env (currentHeight this) = Some (Inr g)" .
  then have r: "rollBackToCommAncestor env this = Some (Inr \<lparr>currentHeight = g, header4sync = []\<rparr>)"
    by (simp add: rollBackToCommAncestor_def)
  with assms(1,2) show ?thesis
    by (auto simp: commitHecoHeaderToPoly_def)
qed


text \<open>
  The scenario of the spec: the monitor is at 1050, SC agrees up to 1000 and disagrees or has
  no record above. The rollback ends at 1000.
\<close>

theorem rollBack_reaches_common_ancestor_witness:
  "commitHecoHeaderToPoly demo_heco \<lparr>currentHeight = 1050, header4sync = [[1]]\<rparr> =
     Some (Inr (0, \<lparr>currentHeight = 1000, header4sync = []\<rparr>))"
proof -
  have e: "SyncBlockHeader demo_heco (header4sync \<lparr>currentHeight = 1050, header4sync = [[1]]\<rparr>) =
      Inl ''SyncBlockHeader, parent header not exist''"
    by (simp add: demo_heco_def)
  have c: "Contains ''SyncBlockHeader, parent header not exist'' ''parent header not exist'' \<or>
      Contains ''SyncBlockHeader, parent header not exist'' ''missing required field''"
    by code_simp
  have le: "(1000 :: uint64) \<le> currentHeight \<lparr>currentHeight = 1050, header4sync = [[1]]\<rparr>"
    by simp
  have a: "MAIN_CHAIN demo_heco 1000 = Inr [ucast (1000 :: uint64), 1]"
    "[ucast (1000 :: uint64), 1 :: byte] \<noteq> []"
    "HeaderByNumber demo_heco 1000 = Inr [ucast (1000 :: uint64), 1]"
    by (simp_all add: demo_heco_def)
  have d: "\<forall>h. 1000 < h \<and> h \<le> currentHeight \<lparr>currentHeight = 1050, header4sync = [[1]]\<rparr> \<longrightarrow>
       (case MAIN_CHAIN demo_heco h of
          Inl err \<Rightarrow> True
        | Inr r \<Rightarrow> r = [] \<or> (\<exists>hash. HeaderByNumber demo_heco h = Inr hash \<and> hash \<noteq> r))"
    by (auto simp: demo_heco_def)
  from rollBack_reaches_common_ancestor [OF e c le a d] show ?thesis
    by simp
qed

section \<open>C6: the gas-limit guard\<close>

text \<open>
  Where the guard lies. Rounding to 24 digits moves a value by at most half a unit of its
  last digit, so for an estimate below \<open>2^24\<close> (which \<open>float32\<close> holds exactly) the
  computed limit exceeds 300000 exactly from the estimate 272729 on.
\<close>

lemma bitlen_le: "n < 2 ^ k \<Longrightarrow> bitlen n \<le> k"
proof (induction k arbitrary: n)
  case 0
  then show ?case by (subst bitlen.simps) simp
next
  case (Suc k)
  show ?case
  proof (cases "n \<le> 0")
    case True
    then show ?thesis by (subst bitlen.simps) simp
  next
    case False
    from Suc.prems have "n div 2 < 2 ^ k" by simp
    from Suc.IH [OF this] False show ?thesis by (subst bitlen.simps) simp
  qed
qed

lemma bitlen_gt: "2 ^ k \<le> n \<Longrightarrow> k < bitlen n"
proof (induction k arbitrary: n)
  case 0
  then show ?case by (subst bitlen.simps) simp
next
  case (Suc k)
  then have h: "2 ^ k \<le> n div 2" by simp
  have "(0::int) < 2 ^ k" by simp
  moreover from Suc.prems have "2 * 2 ^ k \<le> n" by simp
  ultimately have pos: "\<not> n \<le> 0" by linarith
  from Suc.IH [OF h] pos show ?case by (subst bitlen.simps) simp
qed

lemma int_div_less_iff:
  fixes q d k :: int
  assumes d: "0 < d"
  shows "q div d < k \<longleftrightarrow> q < k * d"
proof
  have e: "q = q div d * d + q mod d" by (rule div_mult_mod_eq [symmetric])
  have m: "0 \<le> q mod d" "q mod d < d" using d by simp_all
  {
    assume "q div d < k"
    then have "q div d + 1 \<le> k" by simp
    then have "(q div d + 1) * d \<le> k * d" using d by (simp add: mult_right_mono)
    moreover have "(q div d + 1) * d = q div d * d + d" by (simp add: algebra_simps)
    then have "q < (q div d + 1) * d" using e m(2) by linarith
    ultimately show "q < k * d" by simp
  }
  {
    assume l: "q < k * d"
    show "q div d < k"
    proof (rule ccontr)
      assume "\<not> q div d < k"
      then have "k \<le> q div d" by simp
      then have "k * d \<le> q div d * d" using d by (simp add: mult_right_mono)
      also have "\<dots> \<le> q" using e m(1) by linarith
      finally show False using l by simp
    qed
  }
qed

lemma round_half_even_bounds:
  assumes "0 \<le> n"
  shows "2 * n - 2 ^ s \<le> 2 * (round_half_even n s * 2 ^ s)"
    and "2 * (round_half_even n s * 2 ^ s) \<le> 2 * n + 2 ^ s"
    and "0 \<le> round_half_even n s"
proof -
  define a where "a = n div 2 ^ s"
  define r where "r = n mod 2 ^ s"
  have n: "n = a * 2 ^ s + r" unfolding a_def r_def by (rule div_mult_mod_eq [symmetric])
  have r: "0 \<le> r" "r < 2 ^ s" by (simp_all add: r_def)
  have a: "0 \<le> a" using assms by (simp add: a_def pos_imp_zdiv_nonneg_iff)
  have q: "round_half_even n s = (if 2 * r > 2 ^ s \<or> (2 * r = 2 ^ s \<and> odd a) then a + 1 else a)"
    by (simp add: round_half_even_def a_def r_def Let_def)
  have c: "(round_half_even n s * 2 ^ s = a * 2 ^ s + 2 ^ s \<and> 2 ^ s \<le> 2 * r) \<or>
           (round_half_even n s * 2 ^ s = a * 2 ^ s \<and> 2 * r \<le> 2 ^ s)"
    by (auto simp: q algebra_simps)
  from c n r show "2 * n - 2 ^ s \<le> 2 * (round_half_even n s * 2 ^ s)"
    by linarith
  from c n r show "2 * (round_half_even n s * 2 ^ s) \<le> 2 * n + 2 ^ s"
    by linarith
  show "0 \<le> round_half_even n s" using a by (simp add: q)
qed

lemma times_1_1_threshold:
  assumes n0: "0 \<le> n" and n24: "n < 2 ^ 24"
  shows "300000 < times_1_1_truncated n \<longleftrightarrow> 272729 \<le> n"
    and "0 \<le> times_1_1_truncated n"
    and "times_1_1_truncated n < 2 ^ 64"
proof -
  define p where "p = n * 9227469"
  define s where "s = bitlen p - 24"
  define q where "q = round_half_even p s"
  have p0: "0 \<le> p" using n0 by (simp add: p_def)
  have f: "times_1_1_truncated n = (if 23 \<le> s then q * 2 ^ (s - 23) else q div 2 ^ (23 - s))"
    by (simp add: times_1_1_truncated_def Let_def p_def s_def q_def)
  note b = round_half_even_bounds [OF p0, of s, folded q_def]
  have "p < 2 ^ 48" using n24 n0 by (simp add: p_def)
  then have "bitlen p \<le> 48" by (rule bitlen_le)
  then have s24: "s \<le> 24" by (simp add: s_def)
  then have "(2::int) ^ s \<le> 2 ^ 24" by (rule power_increasing) simp
  then have ps: "(2::int) ^ s \<le> 16777216" by simp
  have q0: "0 \<le> q" by (rule b(3))
  have qs: "q * 2 ^ s \<le> p + 16777216" using b(2) ps p0 by linarith
  have "(1::int) \<le> 2 ^ s" by simp
  then have "q * 1 \<le> q * 2 ^ s" using q0 by (rule mult_left_mono)
  with qs \<open>p < 2 ^ 48\<close> have qb: "q < 2 ^ 49" by simp
  show "0 \<le> times_1_1_truncated n"
    using q0 by (simp add: f pos_imp_zdiv_nonneg_iff)
  show "times_1_1_truncated n < 2 ^ 64"
  proof (cases "23 \<le> s")
    case True
    with s24 have "s - 23 \<le> 1" by simp
    then have "(2::int) ^ (s - 23) \<le> 2 ^ 1" by (rule power_increasing) simp
    then have "q * 2 ^ (s - 23) \<le> q * 2 ^ 1" using q0 by (rule mult_left_mono)
    with qb True show ?thesis by (simp add: f)
  next
    case False
    have "q div 2 ^ (23 - s) \<le> q div 1"
      using q0 by (intro zdiv_mono2) simp_all
    with qb False show ?thesis by (simp add: f)
  qed
  show "300000 < times_1_1_truncated n \<longleftrightarrow> 272729 \<le> n"
  proof (cases "272729 \<le> n")
    case True
    then have pl: "2516598392901 \<le> p" by (simp add: p_def)
    then have "2 ^ 41 \<le> p" by simp
    then have "41 < bitlen p" by (rule bitlen_gt)
    then have s18: "18 \<le> s" by (simp add: s_def)
    have "300000 < times_1_1_truncated n"
    proof (cases "23 \<le> s")
      case True
      then have "46 < bitlen p" by (simp add: s_def)
      have "(2::int) ^ s = 2 ^ (s - 23) * 2 ^ 23"
        by (subst power_add [symmetric]) (use True in simp)
      then have "q * 2 ^ s = q * (2 ^ (s - 23) * 2 ^ 23)" by (rule arg_cong)
      then have e: "q * 2 ^ s = q * 2 ^ (s - 23) * 8388608" by (simp only: mult.assoc) simp
      from b(1) ps pl have "2516590004293 \<le> q * 2 ^ s" by linarith
      with e have "2516590004293 \<le> q * 2 ^ (s - 23) * 8388608" by (simp only:)
      then have "300000 < q * 2 ^ (s - 23)" by linarith
      with True show ?thesis by (simp add: f)
    next
      case False
      then have s22: "s \<le> 22" by simp
      then have "(2::int) ^ s \<le> 2 ^ 22" by (rule power_increasing) simp
      then have "(2::int) ^ s \<le> 4194304" by simp
      with b(1) pl have l: "2516596295749 \<le> q * 2 ^ s" by linarith
      have e: "(2::int) ^ (23 - s) * 2 ^ s = 2 ^ 23"
        by (subst power_add [symmetric]) (use s22 in simp)
      have "\<not> q div 2 ^ (23 - s) < 300001"
      proof
        assume "q div 2 ^ (23 - s) < 300001"
        then have "q < 300001 * 2 ^ (23 - s)" by (simp add: int_div_less_iff)
        then have "q * 2 ^ s < 300001 * 2 ^ (23 - s) * 2 ^ s"
          by (simp add: mult_strict_right_mono)
        also have "\<dots> = 300001 * 2 ^ 23" using e by (simp add: mult.assoc)
        finally show False using l by simp
      qed
      with False show ?thesis by (simp add: f)
    qed
    with True show ?thesis by simp
  next
    case False
    then have pu: "p \<le> 2516589165432" by (simp add: p_def)
    then have "p < 2 ^ 42" by simp
    then have "bitlen p \<le> 42" by (rule bitlen_le)
    then have s18: "s \<le> 18" by (simp add: s_def)
    then have "(2::int) ^ s \<le> 2 ^ 18" by (rule power_increasing) simp
    then have "(2::int) ^ s \<le> 262144" by simp
    with b(2) pu have u: "q * 2 ^ s \<le> 2516589296504" by linarith
    have e: "(2::int) ^ (23 - s) * 2 ^ s = 2 ^ 23"
      by (subst power_add [symmetric]) (use s18 in simp)
    have "q div 2 ^ (23 - s) < 300001"
    proof -
      have "q < 300001 * 2 ^ (23 - s)"
      proof (rule ccontr)
        assume "\<not> q < 300001 * 2 ^ (23 - s)"
        then have "300001 * 2 ^ (23 - s) \<le> q" by simp
        then have "300001 * 2 ^ (23 - s) * 2 ^ s \<le> q * 2 ^ s"
          by (simp add: mult_right_mono)
        moreover have "300001 * 2 ^ (23 - s) * 2 ^ s = (300001 * 2 ^ 23 :: int)"
          using e by (simp add: mult.assoc)
        ultimately show False using u by simp
      qed
      then show ?thesis by (simp add: int_div_less_iff)
    qed
    with s18 False show ?thesis by (simp add: f)
  qed
qed

lemma float32_of_int_small: "0 \<le> n \<Longrightarrow> n < 2 ^ 24 \<Longrightarrow> float32_of_int n = n"
  using bitlen_le [of n 24] by (simp add: float32_of_int_def round_half_even_def)

lemma inflate_threshold:
  assumes "uint estimate < 2 ^ 24"
  shows "300000 < inflate overflow estimate \<longleftrightarrow> 272729 \<le> estimate"
proof -
  have n0: "0 \<le> uint estimate" by simp
  note t = times_1_1_threshold [OF n0 assms]
  have i: "inflate overflow estimate = word_of_int (times_1_1_truncated (uint estimate))"
    using t(3) by (simp add: inflate_def float32_of_int_small [OF n0 assms])
  have "uint (word_of_int (times_1_1_truncated (uint estimate)) :: uint64) =
        times_1_1_truncated (uint estimate)"
    using t(2) t(3) by (simp add: uint_word_of_int take_bit_int_eq_self)
  then have "300000 < inflate overflow estimate \<longleftrightarrow>
             300000 < times_1_1_truncated (uint estimate)"
    by (simp add: i word_less_def)
  also have "\<dots> \<longleftrightarrow> 272729 \<le> uint estimate" by (rule t(1))
  also have "\<dots> \<longleftrightarrow> 272729 \<le> estimate" by (simp add: word_le_def)
  finally show ?thesis .
qed

text \<open>
  The model of the single-precision arithmetic on a few values: an integer of 25 digits
  that lies half-way between two \<open>float32\<close> values goes to the even one, and the
  limit that line 697 computes at the boundary of the guard and on the sample chain.
\<close>

lemma float32_examples:
  "float32_of_int 16777215 = 16777215"
  "float32_of_int 16777217 = 16777216"
  "float32_of_int 16777219 = 16777220"
  "times_1_1_truncated 10 = 11"
  "times_1_1_truncated 272728 = 300000"
  by code_simp+

lemma inflate_boundary:
  "inflate overflow 272728 = 300000"
  "inflate overflow 272729 = 300001"
  "inflate overflow 363636 = 399999"
proof -
  have "times_1_1_truncated (float32_of_int (uint (272728 :: uint64))) = 300000"
    by code_simp
  then show "inflate overflow 272728 = 300000" by (simp add: inflate_def)
  have "times_1_1_truncated (float32_of_int (uint (272729 :: uint64))) = 300001"
    by code_simp
  then show "inflate overflow 272729 = 300001" by (simp add: inflate_def)
  have "times_1_1_truncated (float32_of_int (uint (363636 :: uint64))) = 399999"
    by code_simp
  then show "inflate overflow 363636 = 399999" by (simp add: inflate_def)
qed

text \<open>
  C6 as stated fails at the boundary of the guard. What the code compares with 300000 is
  the limit it computes, \<open>uint64(float32(gasLimit) * 1.1)\<close>: the product in single
  precision, with its fraction cut off. For the estimate 272728 the product
  \<open>1.1 * 272728 = 300000.8\<close> exceeds 300000, but the computed limit is 300000: the guard
  lets the item pass, and the call puts a job with that limit on the route "0".
\<close>

theorem gas_guard_exact_product_counterexample:
  "10 * 300000 < 11 * uint (272728 :: uint64) \<and>
   EstimateGas (demo_env_at 272728) 1 [0, 0] = Inr 272728 \<and>
   commitDepositEventsWithHeader demo_sdk (demo_env_at 272728) \<lparr>cmap = [], Balance = [Inr 5]\<rparr>
       0 0 '''' None ''tx'' [] =
     (Inr True,
      \<lparr>cmap = [(''0'', [\<lparr>txData = [0, 0], gasLimit = 300000, gasPrice = 1,
                         contractAddr = ''eccm'', polyTxHash' = ''tx''\<rparr>])],
       Balance = [Inr 5]\<rparr>)"
  by code_simp

text \<open>
  C6 as amended, with the limit the code computes: when \<open>commitDepositEventsWithHeader\<close>
  has its gas estimate and \<open>uint64(float32(estimate) * 1.1)\<close> exceeds 300000, it returns
  true and leaves the sender as it was: no job is put on a route, so nothing is
  broadcast. The tick that selected the item \<open>tx\<close> under the key \<open>k\<close> then deletes \<open>k\<close>
  from the store, and no sender has changed. The call reaches the guard when the binding
  of the data contract is made, the backing array of the hash has 32 bytes, DC does not
  know the transaction, and \<open>Pack\<close>, \<open>SuggestGasPrice\<close> and \<open>EstimateGas\<close> succeed.
\<close>

theorem gas_guard_skips_item:
  fixes bridge :: "('f::{zero,linorder}) BridgeEnv"
  assumes gate: "feeGate sdk bridge (db this) = (d, m)"
    and sel: "selectMaxFee bridge m = (maxFee, Some tx, k)"
    and pick: "selectSender (rand env) (senders this) = Some (Inr i)"
    and eccd: "NewEthCrossChainData env = None"
    and len: "32 \<le> length (TxHash sdk (param tx)) + length (TxHash_spare sdk (param tx))"
    and new: "\<not> CheckIfFromChainTxExist env (FromChainID sdk (param tx))
                 (take 32 (TxHash sdk (param tx) @ TxHash_spare sdk (param tx)))"
    and pack: "Pack env ''verifyHeaderAndExecuteTx''
           [rawAuditPath tx, GetMessage sdk (header tx), DecodeString env (headerProof tx),
            (case anchorHeader tx of Some a \<Rightarrow> GetMessage sdk a | None \<Rightarrow> []),
            depositSigs sdk env (header tx) (headerProof tx) (anchorHeader tx)] = Inr data"
    and price: "SuggestGasPrice env = Inr price"
    and est: "EstimateGas env price data = Inr estimate"
    and high: "inflate (uint64_overflow env) estimate > 300000"
  shows "commitDepositEventsWithHeader sdk env (senders this ! i) (header tx) (param tx)
           (headerProof tx) (anchorHeader tx) (EncodeToString (TxHash sdk (param tx)))
           (rawAuditPath tx) = (Inr True, senders this ! i) \<and>
         (\<exists>this'. handleLockDepositEvents sdk bridge env this = Some (Inr this') \<and>
            k \<notin> fst ` set (bridge_transactions (db this')) \<and>
            senders this' = senders this)"
proof -
  have c: "commitDepositEventsWithHeader sdk env (senders this ! i) (header tx) (param tx)
           (headerProof tx) (anchorHeader tx) (EncodeToString (TxHash sdk (param tx)))
           (rawAuditPath tx) = (Inr True, senders this ! i)"
    by (rule commitDeposit_gas_guard [OF eccd len new pack price est high])
  have ne: "bridge_transactions (db this) \<noteq> []"
  proof
    assume "bridge_transactions (db this) = []"
    from feeGate_empty [OF this, of sdk bridge] gate have "m = []" by simp
    with sel show False by (simp add: selectMaxFee_def)
  qed
  have t: "handleLockDepositEvents sdk bridge env this =
      Some (Inr \<lparr>db = putAll sdk (AList.delete k m) (DeleteBridgeTransactions k d),
                 senders = senders this\<rparr>)"
    using ne gate sel pick c by (simp add: handleLockDepositEvents_def)
  have "k \<notin> fst ` set (bridge_transactions
           (putAll sdk (AList.delete k m) (DeleteBridgeTransactions k d)))"
    by (simp add: putAll_keys delete_dom)
  with c t show ?thesis by simp
qed

text \<open>
  On \<open>demo_env\<close> the estimate 363636 gives the limit 399999: the tick of \<open>demo_manager\<close>
  drops the paid item "c" without a job on any route. The hash of the item has 4 bytes in
  an array of 64.
\<close>

theorem gas_guard_skips_item_witness:
  "commitDepositEventsWithHeader demo_sdk demo_env (senders demo_manager ! 0)
      (header (demo_item ''1'')) (param (demo_item ''1'')) (headerProof (demo_item ''1''))
      (anchorHeader (demo_item ''1'')) (EncodeToString (TxHash demo_sdk (param (demo_item ''1''))))
      (rawAuditPath (demo_item ''1'')) = (Inr True, senders demo_manager ! 0) \<and>
   (\<exists>this'. handleLockDepositEvents demo_sdk demo_service demo_env demo_manager = Some (Inr this') \<and>
      ''c'' \<notin> fst ` set (bridge_transactions (db this')) \<and>
      senders this' = senders demo_manager)"
proof -
  have gate: "feeGate demo_sdk demo_service (db demo_manager) =
     (\<lparr>bridge_transactions = [(''c'', Serialization demo_sdk (demo_item ''1''))],
       retry = [], check = []\<rparr>,
      [(''c'', demo_item ''1'')])"
    by code_simp
  have sel: "selectMaxFee demo_service [(''c'', demo_item ''1'')] = (1, Some (demo_item ''1''), ''c'')"
    by (simp add: selectMaxFee_def demo_service_def demo_item_def)
  have pick: "selectSender (rand demo_env) (senders demo_manager) = Some (Inr 0)"
    by (simp add: selectSender_def demo_manager_def demo_env_def Rand_def Int64_def)
  have eccd: "NewEthCrossChainData demo_env = None"
    by (simp add: demo_env_def)
  have len: "32 \<le> length (TxHash demo_sdk (param (demo_item ''1''))) +
                   length (TxHash_spare demo_sdk (param (demo_item ''1'')))"
    by (simp add: demo_sdk_def)
  have new: "\<not> CheckIfFromChainTxExist demo_env (FromChainID demo_sdk (param (demo_item ''1'')))
                 (take 32 (TxHash demo_sdk (param (demo_item ''1'')) @
                           TxHash_spare demo_sdk (param (demo_item ''1''))))"
    by (simp add: demo_env_def)
  have pack: "Pack demo_env ''verifyHeaderAndExecuteTx''
           [rawAuditPath (demo_item ''1''), GetMessage demo_sdk (header (demo_item ''1'')),
            DecodeString demo_env (headerProof (demo_item ''1'')),
            (case anchorHeader (demo_item ''1'') of Some a \<Rightarrow> GetMessage demo_sdk a | None \<Rightarrow> []),
            depositSigs demo_sdk demo_env (header (demo_item ''1'')) (headerProof (demo_item ''1''))
              (anchorHeader (demo_item ''1''))] = Inr [0, 0]"
    by (simp add: demo_env_def demo_sdk_def demo_item_def depositSigs_def convertSigs_def)
  have price: "SuggestGasPrice demo_env = Inr 1"
    by (simp add: demo_env_def)
  have est: "EstimateGas demo_env 1 [0, 0] = Inr 363636"
    by (simp add: demo_env_def)
  have high: "inflate (uint64_overflow demo_env) 363636 > 300000"
    by (simp add: inflate_boundary)
  from gas_guard_skips_item [OF gate sel pick eccd len new pack price est high]
  show ?thesis .
qed

section \<open>C7: the retry item after its submission\<close>

text \<open>
  C7 as stated fails on the text it quotes: the code looks for
  "chooseUtxos, current utxo is not enough", not for "current utxo is not enough". An
  error that contains the shorter text without the prefix, and "tx already done" as well,
  takes the item out of the retry bucket. The item of the example has the index "07",
  which decodes as hexadecimal, so the item gets as far as the submission.
\<close>

theorem retry_short_text_counterexample:
  "Contains ''current utxo is not enough, tx already done'' ''current utxo is not enough'' \<and>
   hexDecode (txIndex demo_crosstx) = Some [7] \<and>
   MappingKeyAt demo_heco (txIndex demo_crosstx) ''01'' =
     Inr (replicate 31 0 @ [7] @ replicate 31 0 @ [1]) \<and>
   ImportOuterTransfer demo_heco [3] 179 [7] = Inl ''current utxo is not enough, tx already done'' \<and>
   CrossTransfer_Serialization demo_crosstx
     \<in> set (retry \<lparr>bridge_transactions = [], retry = [CrossTransfer_Serialization demo_crosstx], check = []\<rparr>) \<and>
   CrossTransfer_Serialization demo_crosstx
     \<notin> set (retry (handleRetry demo_heco 200 (CrossTransfer_Serialization demo_crosstx)
          \<lparr>bridge_transactions = [], retry = [CrossTransfer_Serialization demo_crosstx], check = []\<rparr>))"
  by code_simp

text \<open>
  An index of odd length, such as "7", does not decode: \<open>MappingKeyAt\<close> fails, and the
  item stays where it is without a submission.
\<close>

lemma retry_index_not_hexadecimal:
  "MappingKeyAt demo_heco ''7'' ''01'' = Inl ''encoding/hex: invalid input'' \<and>
   handleRetry demo_heco 200 (CrossTransfer_Serialization (demo_crosstx\<lparr>txIndex := ''7''\<rparr>))
     \<lparr>bridge_transactions = [],
      retry = [CrossTransfer_Serialization (demo_crosstx\<lparr>txIndex := ''7''\<rparr>)], check = []\<rparr> =
     \<lparr>bridge_transactions = [],
      retry = [CrossTransfer_Serialization (demo_crosstx\<lparr>txIndex := ''7''\<rparr>)], check = []\<rparr>"
  by code_simp

text \<open>
  C7 as amended, for a retry item that gets as far as \<open>ImportOuterTransfer\<close> (it decodes,
  its mapping key and proof are found and the reference height is past its height by more
  than the proof depth), with \<open>r\<close> the answer: an error that contains
  "chooseUtxos, current utxo is not enough" leaves the store as it is; otherwise an error
  that contains "tx already done" deletes the item from the retry bucket and leaves the
  check bucket as it is; any other error leaves the store as it is; on success the item
  is in the check bucket under the returned hash and no longer in the retry bucket.
\<close>

theorem retry_item_classification:
  assumes "CrossTransfer_Deserialization v = Inr crosstx"
    and "MappingKeyAt env (txIndex crosstx) ''01'' = Inr keyBytes"
    and "\<not> refHeight \<le> height crosstx + CommitProofBlockConfig env"
    and "GetProof env (Encode env keyBytes)
           (EncodeBig env (sint (refHeight - CommitProofBlockConfig env))) = Inr prf"
    and "ImportOuterTransfer env (value' crosstx)
           (word_of_int (sint (refHeight - CommitProofBlockConfig env))) prf = r"
  shows "(\<forall>err. r = Inl err \<longrightarrow> Contains err ''chooseUtxos, current utxo is not enough'' \<longrightarrow>
            handleRetry env refHeight v d = d) \<and>
         (\<forall>err. r = Inl err \<longrightarrow> \<not> Contains err ''chooseUtxos, current utxo is not enough'' \<longrightarrow>
            Contains err ''tx already done'' \<longrightarrow>
            v \<notin> set (retry (handleRetry env refHeight v d)) \<and>
            check (handleRetry env refHeight v d) = check d) \<and>
         (\<forall>txHash. r = Inr txHash \<longrightarrow>
            v \<notin> set (retry (handleRetry env refHeight v d)) \<and>
            map_of (check (handleRetry env refHeight v d)) txHash = Some v) \<and>
         (\<forall>err. r = Inl err \<longrightarrow> \<not> Contains err ''chooseUtxos, current utxo is not enough'' \<longrightarrow>
            \<not> Contains err ''tx already done'' \<longrightarrow>
            handleRetry env refHeight v d = d)"
  using assms
  by (auto simp: handleRetry_def Let_def commitProof_def DeleteRetry_def PutCheck_def
      update_conv' split: sum.splits)

theorem retry_item_classification_witness:
  "CrossTransfer_Serialization demo_crosstx
     \<notin> set (retry (handleRetry demo_heco 200 (CrossTransfer_Serialization demo_crosstx)
          \<lparr>bridge_transactions = [], retry = [CrossTransfer_Serialization demo_crosstx], check = []\<rparr>)) \<and>
   check (handleRetry demo_heco 200 (CrossTransfer_Serialization demo_crosstx)
          \<lparr>bridge_transactions = [], retry = [CrossTransfer_Serialization demo_crosstx], check = []\<rparr>) = []"
proof -
  have a1: "CrossTransfer_Deserialization (CrossTransfer_Serialization demo_crosstx) = Inr demo_crosstx"
    by code_simp
  have a2: "MappingKeyAt demo_heco (txIndex demo_crosstx) ''01'' =
              Inr (replicate 31 0 @ [7] @ replicate 31 0 @ [1])"
    by code_simp
  have a3: "\<not> 200 \<le> height demo_crosstx + CommitProofBlockConfig demo_heco"
    by code_simp
  have a4: "GetProof demo_heco (Encode demo_heco (replicate 31 0 @ [7] @ replicate 31 0 @ [1]))
           (EncodeBig demo_heco (sint (200 - CommitProofBlockConfig demo_heco))) = Inr [7]"
    by (simp add: demo_heco_def)
  have a5: "ImportOuterTransfer demo_heco (value' demo_crosstx)
           (word_of_int (sint (200 - CommitProofBlockConfig demo_heco))) [7] =
           Inl ''current utxo is not enough, tx already done''"
    by (simp add: demo_heco_def)
  have c1: "\<not> Contains ''current utxo is not enough, tx already done''
              ''chooseUtxos, current utxo is not enough''"
    by code_simp
  have c2: "Contains ''current utxo is not enough, tx already done'' ''tx already done''"
    by code_simp
  from retry_item_classification [OF a1 a2 a3 a4 a5] c1 c2 show ?thesis
    by simp
qed

section \<open>C8: fee gating\<close>

text \<open>
  C8, for a tick of the manager \<open>this\<close> that completes and leaves \<open>this'\<close>. No value of
  the store of \<open>this'\<close> decodes to an item with \<open>hasPay = FEE_NOTPAY\<close>. The keys of the
  store of \<open>this'\<close> are those of the store of \<open>this\<close> without the keys of the items
  marked NOTPAY once the fee service has answered, and without \<open>submittedKeys\<close>. A key is
  marked NOTPAY only if the stored item was, or if the service answered so for it.
  \<open>submittedKeys\<close> holds no key or one, the key of the selected item when its submission
  returned true, and that key was in the store and not marked NOTPAY. The hypotheses: the
  SDK reads every header and Merkle value back from what it wrote, the amounts of the fee
  service are shorter than \<open>2^64\<close>, and the store has one entry per key.
\<close>

theorem fee_gating:
  fixes bridge :: "('f::{zero,linorder}) BridgeEnv"
  assumes hdr: "\<forall>h rest. Header_Deserialization sdk (Header_Serialization sdk h @ rest) = (None, h, rest)"
    and prm: "\<forall>p rest. ToMerkleValue_Deserialization sdk (ToMerkleValue_Serialization sdk p @ rest) =
            (None, p, rest)"
    and am: "\<forall>reqs rsps r. CheckFee bridge reqs = Some rsps \<longrightarrow> r \<in> set rsps \<longrightarrow>
           length (Amount r) < 2 ^ 64"
    and dist: "distinct (map fst (bridge_transactions (db this)))"
    and tick: "handleLockDepositEvents sdk bridge env this = Some (Inr this')"
  shows "(\<forall>k v b. map_of (bridge_transactions (db this')) k = Some v \<longrightarrow>
            Deserialization sdk v = Inr b \<longrightarrow> hasPay b \<noteq> FEE_NOTPAY) \<and>
         fst ` set (bridge_transactions (db this')) =
           fst ` set (bridge_transactions (db this))
             - notPayKeys (checkFees sdk bridge
                 (loadBridgeTransactions sdk (bridge_transactions (db this))))
             - submittedKeys sdk bridge env this \<and>
         notPayKeys (checkFees sdk bridge
             (loadBridgeTransactions sdk (bridge_transactions (db this))))
           \<subseteq> storedNotPay sdk (db this) \<union> answeredNotPay (feeAnswers sdk bridge (db this)) \<and>
         submittedKeys sdk bridge env this
           \<subseteq> fst ` set (bridge_transactions (db this))
               - notPayKeys (checkFees sdk bridge
                   (loadBridgeTransactions sdk (bridge_transactions (db this)))) \<and>
         card (submittedKeys sdk bridge env this) \<le> 1"
proof -
  define N where "N = notPayKeys (checkFees sdk bridge
      (loadBridgeTransactions sdk (bridge_transactions (db this))))"
  define S where "S = submittedKeys sdk bridge env this"
  from tick_outcome [OF tick] obtain d1 m1 where g: "feeGate sdk bridge (db this) = (d1, m1)"
    and c: "(db this' = putAll sdk m1 d1 \<and> S = {}) \<or>
            (\<exists>k \<in> fst ` set m1.
               db this' = putAll sdk (AList.delete k m1) (DeleteBridgeTransactions k d1) \<and>
               S = {k})"
    unfolding S_def by blast
  note p = feeGate_props [OF dist g]
  from g have "dropNotPay (checkFees sdk bridge
      (loadBridgeTransactions sdk (bridge_transactions (db this)))) (db this) = (d1, m1)"
    by (simp add: feeGate_def Let_def)
  then have kd1: "fst ` set (bridge_transactions d1) = fst ` set (bridge_transactions (db this)) - N"
    unfolding N_def by (rule dropNotPay_keys)
  have origin: "N \<subseteq> storedNotPay sdk (db this) \<union> answeredNotPay (feeAnswers sdk bridge (db this))"
    unfolding N_def by (rule checkFees_notPay)
  have pay: "\<And>k b. (k, b) \<in> set m1 \<Longrightarrow> hasPay b \<noteq> FEE_NOTPAY" using p(3) by auto
  have bnd: "\<And>k b. (k, b) \<in> set m1 \<Longrightarrow> bounded b" using p(5) [OF am] by auto
  have rt: "\<And>k b b'. (k, b) \<in> set m1 \<Longrightarrow> Deserialization sdk (Serialization sdk b) = Inr b' \<Longrightarrow>
      hasPay b' \<noteq> FEE_NOTPAY"
    using Deserialization_Serialization_hasPay [OF hdr prm bnd] pay by fastforce
  have main: "(\<forall>k v b. map_of (bridge_transactions (db this')) k = Some v \<longrightarrow>
            Deserialization sdk v = Inr b \<longrightarrow> hasPay b \<noteq> FEE_NOTPAY) \<and>
         fst ` set (bridge_transactions (db this')) =
           fst ` set (bridge_transactions (db this)) - N - S \<and>
         S \<subseteq> fst ` set (bridge_transactions (db this)) - N \<and> card S \<le> 1"
    using c
  proof
    assume "db this' = putAll sdk m1 d1 \<and> S = {}"
    then have e: "db this' = putAll sdk m1 d1" and s: "S = {}" by simp_all
    have one: "\<forall>k v b. map_of (bridge_transactions (db this')) k = Some v \<longrightarrow>
            Deserialization sdk v = Inr b \<longrightarrow> hasPay b \<noteq> FEE_NOTPAY"
    proof (intro allI impI)
      fix k v b
      assume v: "map_of (bridge_transactions (db this')) k = Some v"
        and b: "Deserialization sdk v = Inr b"
      show "hasPay b \<noteq> FEE_NOTPAY"
      proof (cases "map_of m1 k")
        case None
        with v have "map_of (bridge_transactions d1) k = Some v"
          by (simp add: e putAll_map_of [OF p(1)])
        from p(4) [OF this b] None show ?thesis by (simp add: map_of_eq_None_iff)
      next
        case (Some b0)
        with v have "v = Serialization sdk b0" by (simp add: e putAll_map_of [OF p(1)])
        with b rt [OF map_of_SomeD [OF Some]] show ?thesis by simp
      qed
    qed
    have "fst ` set (bridge_transactions (db this')) = fst ` set (bridge_transactions d1)"
      using p(2) by (auto simp: e putAll_keys)
    with one s kd1 show ?thesis by simp
  next
    assume "\<exists>k \<in> fst ` set m1.
               db this' = putAll sdk (AList.delete k m1) (DeleteBridgeTransactions k d1) \<and>
               S = {k}"
    then obtain k0 where k0: "k0 \<in> fst ` set m1"
      and e: "db this' = putAll sdk (AList.delete k0 m1) (DeleteBridgeTransactions k0 d1)"
      and s: "S = {k0}"
      by blast
    have dd: "distinct (map fst (AList.delete k0 m1))" using p(1) by (rule distinct_delete)
    have one: "\<forall>k v b. map_of (bridge_transactions (db this')) k = Some v \<longrightarrow>
            Deserialization sdk v = Inr b \<longrightarrow> hasPay b \<noteq> FEE_NOTPAY"
    proof (intro allI impI)
      fix k v b
      assume v: "map_of (bridge_transactions (db this')) k = Some v"
        and b: "Deserialization sdk v = Inr b"
      from v have ne: "k \<noteq> k0"
        by (auto simp: e putAll_map_of [OF dd] delete_conv')
      show "hasPay b \<noteq> FEE_NOTPAY"
      proof (cases "map_of m1 k")
        case None
        with v ne have "map_of (bridge_transactions d1) k = Some v"
          by (simp add: e putAll_map_of [OF dd] delete_conv')
        from p(4) [OF this b] None show ?thesis by (simp add: map_of_eq_None_iff)
      next
        case (Some b0)
        with v ne have "v = Serialization sdk b0"
          by (simp add: e putAll_map_of [OF dd] delete_conv')
        with b rt [OF map_of_SomeD [OF Some]] show ?thesis by simp
      qed
    qed
    have keys: "fst ` set (bridge_transactions (db this')) = fst ` set (bridge_transactions d1) - {k0}"
      using p(2) by (auto simp: e putAll_keys delete_dom)
    from k0 p(2) have "k0 \<in> fst ` set (bridge_transactions d1)" by auto
    with one s keys kd1 show ?thesis by simp
  qed
  with origin show ?thesis unfolding N_def S_def by simp
qed

text \<open>
  The tick of \<open>demo_manager\<close>: "a" is answered NOTPAY and dropped, "c" is submitted and
  removed.
\<close>

theorem fee_gating_witness:
  "handleLockDepositEvents demo_sdk demo_service demo_env demo_manager =
     Some (Inr \<lparr>db = \<lparr>bridge_transactions = [], retry = [], check = []\<rparr>,
                senders = [\<lparr>cmap = [], Balance = [Inr 5]\<rparr>]\<rparr>) \<and>
   fst ` set (bridge_transactions \<lparr>bridge_transactions = [], retry = [], check = []\<rparr>) =
     fst ` set (bridge_transactions (db demo_manager))
       - notPayKeys (checkFees demo_sdk demo_service
           (loadBridgeTransactions demo_sdk (bridge_transactions (db demo_manager))))
       - submittedKeys demo_sdk demo_service demo_env demo_manager \<and>
   card (submittedKeys demo_sdk demo_service demo_env demo_manager) \<le> 1"
proof -
  have h: "\<forall>h rest. Header_Deserialization demo_sdk (Header_Serialization demo_sdk h @ rest) =
      (None, h, rest)"
    by (simp add: demo_sdk_def NextUint8_Write)
  have p: "\<forall>p rest. ToMerkleValue_Deserialization demo_sdk
      (ToMerkleValue_Serialization demo_sdk p @ rest) = (None, p, rest)"
    by (simp add: demo_sdk_def NextUint8_Write)
  have am: "\<forall>reqs rsps r. CheckFee demo_service reqs = Some rsps \<longrightarrow> r \<in> set rsps \<longrightarrow>
      length (Amount r) < 2 ^ 64"
    by (auto simp: demo_service_def)
  have dist: "distinct (map fst (bridge_transactions (db demo_manager)))"
    by (simp add: demo_manager_def)
  have tick: "handleLockDepositEvents demo_sdk demo_service demo_env demo_manager =
     Some (Inr \<lparr>db = \<lparr>bridge_transactions = [], retry = [], check = []\<rparr>,
                senders = [\<lparr>cmap = [], Balance = [Inr 5]\<rparr>]\<rparr>)"
    by code_simp
  from fee_gating [OF h p am dist tick] tick show ?thesis by simp
qed

section \<open>C9: the choice of a sender\<close>

lemma Balance_retry_Some:
  "\<exists>bal. Inr bal \<in> set answers \<Longrightarrow> \<exists>b. Balance_retry answers = Some b"
proof (induction answers)
  case Nil
  then show ?case by simp
next
  case (Cons a answers)
  then show ?case by (cases a) auto
qed

lemma sumBalances_Some:
  "\<forall>v \<in> set vs. \<exists>bal. Inr bal \<in> set (Balance v) \<Longrightarrow>
   \<exists>balArr whole. sumBalances vs acc = Some (balArr, whole) \<and> length balArr = length vs"
proof (induction vs arbitrary: acc)
  case Nil
  then show ?case by simp
next
  case (Cons v vs)
  from Cons.prems obtain b where b: "Balance_retry (Balance v) = Some b"
    using Balance_retry_Some [of "Balance v"] by auto
  from Cons.prems have "\<forall>v \<in> set vs. \<exists>bal. Inr bal \<in> set (Balance v)" by simp
  from Cons.IH [OF this, of "acc + b"] obtain balArr whole
    where "sumBalances vs (acc + b) = Some (balArr, whole)" "length balArr = length vs"
    by blast
  with b show ?case by simp
qed

lemma firstAtLeast_bound:
  "firstAtLeast balArr sample i = Some j \<Longrightarrow> i \<le> j \<and> j < i + length balArr"
proof (induction balArr arbitrary: i)
  case Nil
  then show ?case by simp
next
  case (Cons v balArr)
  show ?case
  proof (cases "v \<ge> sample")
    case True
    with Cons.prems show ?thesis by simp
  next
    case False
    with Cons.prems have "firstAtLeast balArr sample (Suc i) = Some j" by simp
    from Cons.IH [OF this] show ?thesis by simp
  qed
qed

lemma sumBalances_zero:
  "\<forall>v \<in> set vs. Balance_retry (Balance v) = Some 0 \<Longrightarrow>
   sumBalances vs 0 = Some (replicate (length vs) 0, 0)"
  by (induction vs) (simp_all add: Int64_def)

text \<open>
  C9 as stated fails in its second half: with every balance zero the sample is 0
  (\<open>big.Int.Rand\<close> gives 0 for a bound that is not positive), the first sender's entry of
  \<open>balArr\<close> is 0 as well, and the first sender is returned.
\<close>

theorem selectSender_all_zero_counterexample:
  "selectSender (\<lambda>n. 0)
     [\<lparr>cmap = [], Balance = [Inr 0]\<rparr>, \<lparr>cmap = [], Balance = [Inr 0]\<rparr>] =
   Some (Inr 0)"
  by (simp add: selectSender_def Rand_def Int64_def)

text \<open>
  C9 as amended: with at least one sender, and every sender's balance query answered
  without error at some attempt, \<open>selectSender\<close> returns one of the configured senders,
  whatever the balances and the sample; when every balance is zero it returns the first.
\<close>

theorem selectSender_returns_sender:
  assumes "senders' \<noteq> []"
    and "\<forall>v \<in> set senders'. \<exists>bal. Inr bal \<in> set (Balance v)"
  shows "(\<exists>i < length senders'. selectSender rnd senders' = Some (Inr i)) \<and>
         ((\<forall>v \<in> set senders'. Balance_retry (Balance v) = Some 0) \<longrightarrow>
            selectSender rnd senders' = Some (Inr 0))"
proof
  from sumBalances_Some [OF assms(2), of 0] obtain balArr whole
    where s: "sumBalances senders' 0 = Some (balArr, whole)" and l: "length balArr = length senders'"
    by blast
  show "\<exists>i < length senders'. selectSender rnd senders' = Some (Inr i)"
  proof (cases "firstAtLeast balArr (Rand rnd whole) 0")
    case None
    with s assms(1) show ?thesis by (simp add: selectSender_def)
  next
    case (Some j)
    from firstAtLeast_bound [OF Some] l have "j < length senders'" by simp
    with s Some show ?thesis by (simp add: selectSender_def)
  qed
  show "(\<forall>v \<in> set senders'. Balance_retry (Balance v) = Some 0) \<longrightarrow>
            selectSender rnd senders' = Some (Inr 0)"
  proof
    assume z: "\<forall>v \<in> set senders'. Balance_retry (Balance v) = Some 0"
    from assms(1) obtain v vs where "senders' = v # vs" by (cases senders') auto
    with sumBalances_zero [OF z] show "selectSender rnd senders' = Some (Inr 0)"
      by (simp add: selectSender_def Rand_def)
  qed
qed

theorem selectSender_returns_sender_witness:
  "(\<exists>i < 2. selectSender (\<lambda>n. 6)
       [\<lparr>cmap = [], Balance = [Inl ''timeout'', Inr 5]\<rparr>,
        \<lparr>cmap = [], Balance = [Inr 3]\<rparr>] = Some (Inr i)) \<and>
   selectSender (\<lambda>n. 6)
       [\<lparr>cmap = [], Balance = [Inr 0]\<rparr>, \<lparr>cmap = [], Balance = [Inr 0]\<rparr>] =
     Some (Inr 0)"
  using selectSender_returns_sender [of "[\<lparr>cmap = [], Balance = [Inl ''timeout'', Inr 5]\<rparr>,
        \<lparr>cmap = [], Balance = [Inr 3]\<rparr>]" "\<lambda>n. 6"]
    selectSender_returns_sender [of "[\<lparr>cmap = [], Balance = [Inr 0]\<rparr>,
        \<lparr>cmap = [], Balance = [Inr 0]\<rparr>]" "\<lambda>n. 6"]
  by (simp add: numeral_2_eq_2)

section \<open>C10: what commitHeader reports\<close>

text \<open>
  C10: \<open>commitHeader\<close> returns false only when a step before the broadcast fails (the gas
  price, the gas estimate, the signature or \<open>SendTransaction\<close>; a failure of the ABI
  packing is in the list of the claim, and there the code panics on its log line instead of
  returning). Once \<open>SendTransaction\<close> has succeeded it returns true whatever the polling
  for the confirmation finds, and so whatever \<open>waitTransactionConfirm\<close> returns.
\<close>

theorem commitHeader_true_once_sent:
  "(commitHeader sdk env hdr pubkList = Inr False \<longrightarrow>
      isl (SuggestGasPrice env) \<or>
      (\<exists>price data.
         SuggestGasPrice env = Inr price \<and>
         Pack env ''changeBookKeeper''
           [GetMessage sdk hdr, pubkList, convertSigs env (SigData sdk hdr)] = Inr data \<and>
         (isl (EstimateGas env price data) \<or>
          (\<exists>limit signed.
             EstimateGas env price data = Inr limit \<and>
             signed = SignTransaction env
                \<lparr>tx_nonce = GetAddressNonce env, tx_to = ECCMContractAddress env,
                 tx_gas = limit, tx_gasPrice = price, tx_data = data\<rparr> \<and>
             (isl signed \<or> SendTransaction env (projr signed) \<noteq> None))))) \<and>
   (\<forall>price data limit signedtx polls.
      SuggestGasPrice env = Inr price \<longrightarrow>
      Pack env ''changeBookKeeper''
        [GetMessage sdk hdr, pubkList, convertSigs env (SigData sdk hdr)] = Inr data \<longrightarrow>
      EstimateGas env price data = Inr limit \<longrightarrow>
      SignTransaction env
        \<lparr>tx_nonce = GetAddressNonce env, tx_to = ECCMContractAddress env,
         tx_gas = limit, tx_gasPrice = price, tx_data = data\<rparr> = Inr signedtx \<longrightarrow>
      SendTransaction env signedtx = None \<longrightarrow>
      commitHeader sdk (env\<lparr>TransactionStatus := polls\<rparr>) hdr pubkList = Inr True)"
proof (intro conjI allI impI)
  assume "commitHeader sdk env hdr pubkList = Inr False"
  then show "isl (SuggestGasPrice env) \<or>
      (\<exists>price data.
         SuggestGasPrice env = Inr price \<and>
         Pack env ''changeBookKeeper''
           [GetMessage sdk hdr, pubkList, convertSigs env (SigData sdk hdr)] = Inr data \<and>
         (isl (EstimateGas env price data) \<or>
          (\<exists>limit signed.
             EstimateGas env price data = Inr limit \<and>
             signed = SignTransaction env
                \<lparr>tx_nonce = GetAddressNonce env, tx_to = ECCMContractAddress env,
                 tx_gas = limit, tx_gasPrice = price, tx_data = data\<rparr> \<and>
             (isl signed \<or> SendTransaction env (projr signed) \<noteq> None))))"
    by (auto simp: commitHeader_def Let_def split: sum.splits option.splits)
next
  fix price data limit signedtx polls
  assume "SuggestGasPrice env = Inr price"
    "Pack env ''changeBookKeeper''
        [GetMessage sdk hdr, pubkList, convertSigs env (SigData sdk hdr)] = Inr data"
    "EstimateGas env price data = Inr limit"
    "SignTransaction env
        \<lparr>tx_nonce = GetAddressNonce env, tx_to = ECCMContractAddress env,
         tx_gas = limit, tx_gasPrice = price, tx_data = data\<rparr> = Inr signedtx"
    "SendTransaction env signedtx = None"
  then show "commitHeader sdk (env\<lparr>TransactionStatus := polls\<rparr>) hdr pubkList = Inr True"
    by (simp add: commitHeader_def Let_def convertSigs_def)
qed

text \<open>
  On \<open>demo_env\<close> the receipt reports failure, \<open>waitTransactionConfirm\<close> returns false and
  \<open>commitHeader\<close> returns true; without a gas price it returns false.
\<close>

theorem commitHeader_true_once_sent_witness:
  "waitTransactionConfirm (TransactionStatus demo_env \<lparr>tx_nonce = 7, tx_to = ''eccm'', tx_gas = 363636, tx_gasPrice = 1, tx_data = [5, 9, 5]\<rparr>) 0 = False \<and>
   commitHeader demo_sdk demo_env 5 [9] = Inr True \<and>
   commitHeader demo_sdk (demo_env\<lparr>SuggestGasPrice := Inl ''no price''\<rparr>) 5 [9] = Inr False"
  using commitHeader_true_once_sent [of demo_sdk demo_env 5 "[9]"]
  by (simp add: demo_sdk_def demo_env_def convertSigs_def ReceiptStatusSuccessful_def commitHeader_def)



end
